theory Spec2Isabelle
  imports Main "HOL-Library.Word" "HOL-Library.List_Lexorder" "HOL-Library.Char_ord"
begin

unbundle bit_operations_syntax

section \<open>Stream compaction: \<open>copy_if\<close> on legacy tables\<close>

subsection \<open>Columns, tables and errors\<close>

text \<open>
  \<open>CUDF_EXPECTS(cond, msg)\<close> throws \<open>cudf::logic_error(msg)\<close> when \<open>cond\<close> is false.
  Every function that can throw returns \<open>error + 'a\<close>, with \<open>Inl\<close> for the exception.
\<close>

datatype error = logic_error string

type_synonym bit_mask_t = "32 word"

datatype gdf_dtype =
    GDF_invalid | GDF_INT8 | GDF_INT16 | GDF_INT32 | GDF_INT64 | GDF_FLOAT32 | GDF_FLOAT64
  | GDF_BOOL8 | GDF_DATE32 | GDF_DATE64 | GDF_TIMESTAMP | GDF_CATEGORY | GDF_STRING
  | GDF_STRING_CATEGORY

text \<open>
  A \<open>gdf_column\<close>: \<open>data\<close> and \<open>valid\<close> are device pointers, \<open>None\<close> for \<open>nullptr\<close>;
  a buffer is the list of its cells. The element type \<open>'a\<close> stands for the C++ type the
  type dispatcher selects from \<open>dtype\<close>. The field \<open>size\<close> is called \<open>size_gdf\<close> here.
\<close>

record 'a gdf_column =
  data :: "'a list option"
  valid :: "bit_mask_t list option"
  size_gdf :: nat
  dtype :: gdf_dtype
  null_count :: nat

type_synonym 'a table = "'a gdf_column list"

text \<open>
  Modelled from the spec: \<open>table::num_rows\<close> and \<open>table::num_columns\<close> (the class is
  declared outside the sources at hand). A table is an ordered collection of columns that
  all share one row count, so the row count is that of the first column, and 0 when there
  is no column.
\<close>

definition num_columns :: "'a table \<Rightarrow> nat" where
  "num_columns t = length t"

definition num_rows :: "'a table \<Rightarrow> nat" where
  "num_rows t = (case t of [] \<Rightarrow> 0 | c # _ \<Rightarrow> size_gdf c)"

text \<open>
  Modelled from the spec: \<open>cudf::is_nullable\<close>, a column is nullable when it has a
  validity buffer.
\<close>

definition is_nullable :: "'a gdf_column \<Rightarrow> bool" where
  "is_nullable c = (valid c \<noteq> None)"

text \<open>
  Modelled from the spec: \<open>bit_mask::is_valid\<close>, one bit per row, grouped into 32-bit
  words, bit set for a non-null row.
\<close>

definition is_valid :: "bit_mask_t list \<Rightarrow> nat \<Rightarrow> bool" where
  "is_valid bitmask i = bit (bitmask ! (i div 32)) (i mod 32)"

text \<open>
  Modelled from the spec: the table construction services \<open>empty_like\<close>, \<open>copy\<close> and
  \<open>allocate_like\<close>. \<open>empty_like\<close> keeps the schema (column count and types) and has no
  rows and no buffers; \<open>copy\<close> is a full copy, which on values is the identity;
  \<open>allocate_like\<close> allocates \<open>n\<close> rows per column, with a validity buffer when the input
  column has one. The source calls it under the comment "Allocate/initialize output columns"
  and the scatter kernel only ever sets validity bits, so the validity words start at zero.
  The data cells are not initialised: their contents are whatever the argument \<open>uninit\<close>
  says, so that no result can depend on them by accident.
\<close>

definition empty_like_column :: "'a gdf_column \<Rightarrow> 'a gdf_column" where
  "empty_like_column c =
     \<lparr>data = None, valid = None, size_gdf = 0, dtype = dtype c, null_count = 0\<rparr>"

definition empty_like :: "'a table \<Rightarrow> 'a table" where
  "empty_like t = map empty_like_column t"

definition copy :: "'a table \<Rightarrow> 'a table" where
  "copy t = t"

definition allocate_like_column ::
  "(nat \<Rightarrow> 'a) \<Rightarrow> 'a gdf_column \<Rightarrow> nat \<Rightarrow> bool \<Rightarrow> 'a gdf_column" where
  "allocate_like_column uninit c n allocate_mask_if_exists =
     \<lparr>data = Some (map uninit [0..<n]),
      valid = (if valid c \<noteq> None \<and> allocate_mask_if_exists
               then Some (replicate ((n + 31) div 32) 0) else None),
      size_gdf = n, dtype = dtype c, null_count = 0\<rparr>"

definition allocate_like :: "(nat \<Rightarrow> 'a) \<Rightarrow> 'a table \<Rightarrow> nat \<Rightarrow> bool \<Rightarrow> 'a table" where
  "allocate_like uninit t n allocate_mask_if_exists =
     map (\<lambda>c. allocate_like_column uninit c n allocate_mask_if_exists) t"

text \<open>
  Modelled from the spec: \<open>grid_config_1d\<close> partitions \<open>n\<close> rows into
  \<open>ceil(n / (block_size * per_thread))\<close> blocks.
\<close>

definition grid_num_blocks :: "nat \<Rightarrow> nat \<Rightarrow> nat \<Rightarrow> nat" where
  "grid_num_blocks n block_size per_thread =
     (n + block_size * per_thread - 1) div (block_size * per_thread)"

subsection \<open>Block primitives\<close>

text \<open>
  A kernel is modelled in lock step: a per-thread variable is a function of
  \<open>threadIdx.x\<close>, a block-wide collective takes that function and returns what every
  thread receives, and a statement executed by all threads of a block is a fold over
  \<open>[0..<block_size]\<close>. The filter is a function of the row index; the index \<open>tid\<close> of
  the source is never negative, so it is a \<open>nat\<close>, and it stays below \<open>2^31\<close> for every
  row count a \<open>gdf_size_type\<close> can hold.
\<close>

definition warp_size :: nat where
  "warp_size = 32"

definition syncthreads_count :: "nat \<Rightarrow> (nat \<Rightarrow> bool) \<Rightarrow> nat" where
  "syncthreads_count block_size pred = length (filter pred [0..<block_size])"

definition ballot_sync :: "(nat \<Rightarrow> bool) \<Rightarrow> bit_mask_t" where
  "ballot_sync pred = horner_sum of_bool 2 (map pred [0..<32])"

definition popc :: "bit_mask_t \<Rightarrow> nat" where
  "popc w = length (filter (bit w) [0..<32])"

text \<open>
  \<open>cub::DeviceScan::ExclusiveSum\<close> and \<open>cub::BlockScan::ExclusiveSum\<close> are library
  calls; the model is the sequential exclusive prefix sum with a running total.
\<close>

fun ExclusiveSum_from :: "nat \<Rightarrow> nat list \<Rightarrow> nat list" where
  "ExclusiveSum_from acc [] = []"
| "ExclusiveSum_from acc (x # xs) = acc # ExclusiveSum_from (acc + x) xs"

definition ExclusiveSum :: "nat list \<Rightarrow> nat list" where
  "ExclusiveSum xs = ExclusiveSum_from 0 xs"

text \<open>
  \<open>block_scan_mask\<close>: the thread \<open>threadIdx\<close> receives the number of threads before it
  whose flag is set, and every thread receives the block's total in \<open>block_sum\<close>.
\<close>

definition block_scan_mask :: "nat \<Rightarrow> (nat \<Rightarrow> bool) \<Rightarrow> nat \<Rightarrow> nat \<times> nat" where
  "block_scan_mask block_size mask_true threadIdx =
     (length (filter mask_true [0..<threadIdx]), length (filter mask_true [0..<block_size]))"

subsection \<open>Stage 1: per-block pass counts\<close>

text \<open>
  \<open>compute_block_counts\<close>: \<open>tid\<close> is the row of thread 0 of the block; thread \<open>x\<close> looks
  at row \<open>tid + x\<close>. The loop runs \<open>per_thread\<close> times.
\<close>

fun compute_block_counts_loop :: "nat \<Rightarrow> (nat \<Rightarrow> bool) \<Rightarrow> nat \<Rightarrow> nat \<Rightarrow> nat \<Rightarrow> nat" where
  "compute_block_counts_loop block_size filt 0 tid count = count"
| "compute_block_counts_loop block_size filt (Suc i) tid count =
     compute_block_counts_loop block_size filt i (tid + block_size)
       (count + syncthreads_count block_size (\<lambda>x. filt (tid + x)))"

definition compute_block_counts :: "nat \<Rightarrow> nat \<Rightarrow> (nat \<Rightarrow> bool) \<Rightarrow> nat \<Rightarrow> nat" where
  "compute_block_counts block_size per_thread filt blockIdx =
     compute_block_counts_loop block_size filt per_thread (per_thread * block_size * blockIdx) 0"

definition launch_compute_block_counts ::
  "nat \<Rightarrow> nat \<Rightarrow> nat \<Rightarrow> (nat \<Rightarrow> bool) \<Rightarrow> nat list" where
  "launch_compute_block_counts num_blocks block_size per_thread filt =
     map (compute_block_counts block_size per_thread filt) [0..<num_blocks]"

subsection \<open>Stages 2 and 3: block offsets and output size\<close>

definition scan_block_counts :: "nat \<Rightarrow> nat list \<Rightarrow> nat list" where
  "scan_block_counts num_blocks block_counts =
     (if num_blocks > 1 then ExclusiveSum block_counts else replicate num_blocks 0)"

text \<open>
  \<open>get_output_size\<close> reads \<open>block_counts[num_blocks - 1]\<close>, and the offset only when
  there is more than one block. \<open>copy_if\<close> calls it with at least one block; the sums
  stay below the row count, so the 32-bit addition does not wrap.
\<close>

definition get_output_size :: "nat list \<Rightarrow> nat list \<Rightarrow> nat \<Rightarrow> nat" where
  "get_output_size block_counts block_offsets num_blocks =
     (let last_block_count = block_counts ! (num_blocks - 1);
          last_block_offset = (if num_blocks > 1 then block_offsets ! (num_blocks - 1) else 0)
      in last_block_count + last_block_offset)"

subsection \<open>Stage 4: the scatter kernel\<close>

text \<open>
  The global memory a scatter kernel writes: the output column's data and validity words
  and the transient null counter.
\<close>

record 'a scatter_mem =
  output_data :: "'a list"
  output_valid :: "bit_mask_t list"
  output_null_count :: nat

text \<open>
  One pass of the loop body of \<open>scatter_kernel\<close>, statement by statement. Throughout,
  \<open>tid\<close> is the row of thread 0 in this pass and thread \<open>x\<close> handles row \<open>tid + x\<close>.

  \<open>stage_data\<close>: \<open>if (mask_true) temp_data[local_index] = input_data[tid]\<close>.
\<close>

definition stage_data :: "nat \<Rightarrow> 'a list \<Rightarrow> (nat \<Rightarrow> bool) \<Rightarrow> nat \<Rightarrow> 'a list \<Rightarrow> 'a list" where
  "stage_data block_size input_data filt tid temp_data =
     fold (\<lambda>x td.
        if filt (tid + x)
        then td[fst (block_scan_mask block_size (\<lambda>y. filt (tid + y)) x) := input_data ! (tid + x)]
        else td) [0..<block_size] temp_data"

text \<open>
  \<open>stage_valids\<close>: \<open>temp_valids\<close> is cleared (\<open>block_size + warp_size\<close> flags), then a
  thread whose row passes and is valid sets the flag at
  \<open>local_index + block_offset % warp_size\<close>.
\<close>

definition stage_valids ::
  "nat \<Rightarrow> bit_mask_t list \<Rightarrow> (nat \<Rightarrow> bool) \<Rightarrow> nat \<Rightarrow> nat \<Rightarrow> bool list" where
  "stage_valids block_size input_valid filt tid block_offset =
     fold (\<lambda>x tv.
        if filt (tid + x) \<and> is_valid input_valid (tid + x)
        then (let aligned_offset = block_offset mod warp_size
              in tv[fst (block_scan_mask block_size (\<lambda>y. filt (tid + y)) x) + aligned_offset := True])
        else tv) [0..<block_size] (replicate (block_size + warp_size) False)"

text \<open>
  \<open>write_data\<close>:
  \<open>if (threadIdx.x < block_sum) output_data[block_offset + threadIdx.x] = temp_data[threadIdx.x]\<close>.
\<close>

definition write_data :: "nat \<Rightarrow> nat \<Rightarrow> nat \<Rightarrow> 'a list \<Rightarrow> 'a list \<Rightarrow> 'a list" where
  "write_data block_size block_offset block_sum temp_data out =
     fold (\<lambda>x od. if x < block_sum then od[block_offset + x := temp_data ! x] else od)
       [0..<block_size] out"

text \<open>
  \<open>write_valids_warp\<close>: what the warp \<open>wid\<close> does to the output validity words and to
  \<open>warp_valid_counts\<close>; lane 0 of the warp does the writes. \<open>atomicOr\<close> is the update of
  a word with its bitwise OR.
\<close>

definition atomicOr :: "bit_mask_t list \<Rightarrow> nat \<Rightarrow> bit_mask_t \<Rightarrow> bit_mask_t list" where
  "atomicOr mem i v = mem[i := mem ! i OR v]"

definition write_valids_warp ::
  "nat \<Rightarrow> nat \<Rightarrow> nat \<Rightarrow> bool list \<Rightarrow> nat \<Rightarrow> bit_mask_t list \<times> nat list
     \<Rightarrow> bit_mask_t list \<times> nat list" where
  "write_valids_warp block_size block_offset block_sum temp_valids wid s =
     (let num_warps = block_size div warp_size;
          last_warp = block_sum div warp_size
      in if block_sum > 0 \<and> wid \<le> last_warp then
           let valid_index = block_offset div warp_size + wid;
               valid_warp = ballot_sync (\<lambda>lane. temp_valids ! (wid * warp_size + lane));
               s1 = (if valid_warp \<noteq> 0
                     then ((if wid > 0 \<and> wid < last_warp
                            then (fst s)[valid_index := valid_warp]
                            else atomicOr (fst s) valid_index valid_warp),
                           (snd s)[wid := popc valid_warp])
                     else s)
           in if wid = 0 \<and> last_warp = num_warps then
                let valid_warp2 = ballot_sync (\<lambda>lane. temp_valids ! (block_size + lane))
                in if valid_warp2 \<noteq> 0
                   then (atomicOr (fst s1) (valid_index + num_warps) valid_warp2,
                         (snd s1)[wid := snd s1 ! wid + popc valid_warp2])
                   else s1
              else s1
         else s)"

definition write_valids ::
  "nat \<Rightarrow> nat \<Rightarrow> nat \<Rightarrow> bool list \<Rightarrow> bit_mask_t list \<Rightarrow> bit_mask_t list \<times> nat list" where
  "write_valids block_size block_offset block_sum temp_valids out_valid =
     fold (write_valids_warp block_size block_offset block_sum temp_valids)
       [0..<block_size div warp_size] (out_valid, replicate warp_size 0)"

text \<open>
  \<open>scatter_tile\<close>: the whole loop body. It returns \<open>block_sum\<close>, the shared
  \<open>temp_data\<close> (which lives on across passes) and the global memory. The sum of
  \<open>warp_valid_counts\<close> is the \<open>cub::WarpReduce\<close>; it never exceeds \<open>block_sum\<close>, so the
  subtraction does not wrap.
\<close>

definition scatter_tile ::
  "nat \<Rightarrow> bool \<Rightarrow> 'a list \<Rightarrow> bit_mask_t list \<Rightarrow> (nat \<Rightarrow> bool) \<Rightarrow> nat \<Rightarrow> nat \<Rightarrow> 'a list
     \<Rightarrow> 'a scatter_mem \<Rightarrow> nat \<times> 'a list \<times> 'a scatter_mem" where
  "scatter_tile block_size has_validity input_data input_valid filt tid block_offset temp_data mem =
     (let block_sum = snd (block_scan_mask block_size (\<lambda>y. filt (tid + y)) 0);
          temp_data1 = stage_data block_size input_data filt tid temp_data;
          od = write_data block_size block_offset block_sum temp_data1 (output_data mem)
      in if has_validity then
           let temp_valids = stage_valids block_size input_valid filt tid block_offset;
               vw = write_valids block_size block_offset block_sum temp_valids (output_valid mem);
               block_valid_count = sum_list (snd vw)
           in (block_sum, temp_data1,
               \<lparr>output_data = od, output_valid = fst vw,
                output_null_count = output_null_count mem + (block_sum - block_valid_count)\<rparr>)
         else (block_sum, temp_data1, mem\<lparr>output_data := od\<rparr>))"

fun scatter_kernel_loop ::
  "nat \<Rightarrow> bool \<Rightarrow> 'a list \<Rightarrow> bit_mask_t list \<Rightarrow> (nat \<Rightarrow> bool) \<Rightarrow> nat \<Rightarrow> nat \<Rightarrow> nat \<Rightarrow> 'a list
     \<Rightarrow> 'a scatter_mem \<Rightarrow> 'a scatter_mem" where
  "scatter_kernel_loop block_size has_validity input_data input_valid filt 0 tid block_offset
     temp_data mem = mem"
| "scatter_kernel_loop block_size has_validity input_data input_valid filt (Suc i) tid block_offset
     temp_data mem =
     (case scatter_tile block_size has_validity input_data input_valid filt tid block_offset
             temp_data mem of
        (block_sum, temp_data1, mem1) \<Rightarrow>
          scatter_kernel_loop block_size has_validity input_data input_valid filt i
            (tid + block_size) (block_offset + block_sum) temp_data1 mem1)"

text \<open>
  \<open>scatter_kernel\<close> is what block \<open>blockIdx\<close> does; its shared \<open>temp_data\<close> starts
  uninitialised. The launch runs the blocks one after the other: two blocks touch the same
  global cell only through \<open>atomicOr\<close> and \<open>atomicAdd\<close>.
\<close>

definition scatter_kernel ::
  "nat \<Rightarrow> nat \<Rightarrow> bool \<Rightarrow> (nat \<Rightarrow> 'a) \<Rightarrow> 'a list \<Rightarrow> bit_mask_t list \<Rightarrow> nat list \<Rightarrow> (nat \<Rightarrow> bool)
     \<Rightarrow> nat \<Rightarrow> 'a scatter_mem \<Rightarrow> 'a scatter_mem" where
  "scatter_kernel block_size per_thread has_validity uninit input_data input_valid block_offsets
     filt blockIdx mem =
     scatter_kernel_loop block_size has_validity input_data input_valid filt per_thread
       (per_thread * block_size * blockIdx) (block_offsets ! blockIdx)
       (map uninit [0..<block_size]) mem"

definition launch_scatter_kernel ::
  "nat \<Rightarrow> nat \<Rightarrow> nat \<Rightarrow> bool \<Rightarrow> (nat \<Rightarrow> 'a) \<Rightarrow> 'a list \<Rightarrow> bit_mask_t list \<Rightarrow> nat list
     \<Rightarrow> (nat \<Rightarrow> bool) \<Rightarrow> 'a scatter_mem \<Rightarrow> 'a scatter_mem" where
  "launch_scatter_kernel num_blocks block_size per_thread has_validity uninit input_data
     input_valid block_offsets filt mem =
     fold (scatter_kernel block_size per_thread has_validity uninit input_data input_valid
             block_offsets filt) [0..<num_blocks] mem"

text \<open>
  \<open>scatter_functor\<close>: the null counter is allocated and zeroed for a nullable input and
  copied into the output column afterwards; the data pointers were checked at entry.
\<close>

definition scatter_functor ::
  "nat \<Rightarrow> nat \<Rightarrow> (nat \<Rightarrow> 'a) \<Rightarrow> 'a gdf_column \<Rightarrow> 'a gdf_column \<Rightarrow> nat list \<Rightarrow> (nat \<Rightarrow> bool)
     \<Rightarrow> 'a gdf_column" where
  "scatter_functor block_size per_thread uninit output_column input_column block_offsets filt =
     (let num_blocks = grid_num_blocks (size_gdf input_column) block_size per_thread;
          has_valid = is_nullable input_column;
          mem = launch_scatter_kernel num_blocks block_size per_thread has_valid uninit
                  (case data input_column of Some d \<Rightarrow> d | None \<Rightarrow> [])
                  (case valid input_column of Some v \<Rightarrow> v | None \<Rightarrow> [])
                  block_offsets filt
                  \<lparr>output_data = (case data output_column of Some d \<Rightarrow> d | None \<Rightarrow> []),
                   output_valid = (case valid output_column of Some v \<Rightarrow> v | None \<Rightarrow> []),
                   output_null_count = 0\<rparr>
      in if has_valid
         then output_column\<lparr>data := Some (output_data mem), valid := Some (output_valid mem),
                null_count := output_null_count mem\<rparr>
         else output_column\<lparr>data := Some (output_data mem)\<rparr>)"

subsection \<open>The orchestrator\<close>

text \<open>
  \<open>copy_if\<close> on a table. Besides the result, the model returns the kernels it launched,
  in order, so that "no kernel was launched" can be stated. \<open>CHECK_STREAM\<close>, which reports
  a failure of the device, has no counterpart here.
\<close>

datatype launch = Launch_compute_block_counts | Launch_ExclusiveSum | Launch_scatter_kernel nat

definition copy_if ::
  "(nat \<Rightarrow> 'a) \<Rightarrow> 'a table \<Rightarrow> (nat \<Rightarrow> bool) \<Rightarrow> launch list \<times> (error + 'a table)" where
  "copy_if uninit input filt =
     (if 0 = num_rows input \<or> 0 = num_columns input then ([], Inr (empty_like input))
      else if \<not> list_all (\<lambda>c. data c \<noteq> None) input
      then ([], Inl (logic_error ''Null input data''))
      else
        let block_size = 256;
            per_thread = 32;
            num_blocks = grid_num_blocks (num_rows input) block_size per_thread;
            block_counts = launch_compute_block_counts num_blocks block_size per_thread filt;
            block_offsets = scan_block_counts num_blocks block_counts;
            launched = Launch_compute_block_counts #
                         (if num_blocks > 1 then [Launch_ExclusiveSum] else []);
            output_size = get_output_size block_counts block_offsets num_blocks
        in if output_size = num_rows input then (launched, Inr (copy input))
           else if output_size > 0 then
             let output = allocate_like uninit input output_size True;
                 output = fold (\<lambda>col out.
                            out[col := scatter_functor block_size per_thread uninit (out ! col)
                                         (input ! col) block_offsets filt])
                            [0..<num_columns input] output
             in (launched @ map Launch_scatter_kernel [0..<num_columns input], Inr output)
           else (launched, Inr (empty_like input)))"

text \<open>
  The rows of a column, as a list: the first \<open>size\<close> cells of its data buffer; a column
  without a data buffer has none. The properties below compare columns by their rows.
\<close>

definition column_rows :: "'a gdf_column \<Rightarrow> 'a list" where
  "column_rows c = (case data c of None \<Rightarrow> [] | Some d \<Rightarrow> take (size_gdf c) d)"

text \<open>
  The column that the loop over the columns leaves at one position of the output table:
  \<open>scatter_functor\<close> applied to the freshly allocated column and the input column.
\<close>

definition scattered_column ::
  "(nat \<Rightarrow> 'a) \<Rightarrow> nat \<Rightarrow> nat list \<Rightarrow> (nat \<Rightarrow> bool) \<Rightarrow> 'a gdf_column \<Rightarrow> 'a gdf_column" where
  "scattered_column uninit output_size block_offsets filt c =
     scatter_functor 256 32 uninit (allocate_like_column uninit c output_size True) c
       block_offsets filt"

section \<open>Elementwise \<open>clamp\<close>\<close>

subsection \<open>Columns and scalars\<close>

text \<open>
  Modelled from the spec: the element-type tags (the enumeration is declared outside the
  sources at hand): the fixed-width numeric and temporal types and the offsets-and-bytes
  string type; \<open>EMPTY\<close> has no specialisation in the type dispatcher.
\<close>

datatype type_id =
    EMPTY | INT8 | INT16 | INT32 | INT64 | FLOAT32 | FLOAT64 | BOOL8
  | TIMESTAMP_DAYS | TIMESTAMP_SECONDS | TIMESTAMP_MILLISECONDS | TIMESTAMP_MICROSECONDS
  | TIMESTAMP_NANOSECONDS | STRING

definition is_fixed_width :: "type_id \<Rightarrow> bool" where
  "is_fixed_width t = (t \<noteq> EMPTY \<and> t \<noteq> STRING)"

text \<open>
  A \<open>column_view\<close> (and the \<open>column\<close> that owns the same parts) is type-erased: the
  fixed-width element buffer is \<open>col_data\<close>, with \<open>'a\<close> for the element type the dispatcher
  selects; a \<open>STRING\<close> column has no element buffer and two children, the \<open>n + 1\<close> offsets
  and the bytes, held here in \<open>col_offsets\<close> and \<open>col_chars\<close>. A \<open>scalar\<close> likewise carries
  its fixed-width value in \<open>scalar_value\<close> and, for a string scalar, its bytes in
  \<open>scalar_string\<close>.
\<close>

record 'a column_view =
  col_type :: type_id
  col_size :: nat
  col_data :: "'a list"
  col_null_mask :: "bit_mask_t list option"
  col_null_count :: nat
  col_offsets :: "nat list"
  col_chars :: string

record 'a scalar =
  scalar_type :: type_id
  scalar_is_valid :: bool
  scalar_value :: 'a
  scalar_string :: string

text \<open>
  Modelled from the spec: the accessors of \<open>column_view\<close> and \<open>column_device_view\<close>.
  A column with no validity buffer is all valid; the null count is cached in the column;
  row \<open>i\<close> of a string column is the bytes from \<open>offsets[i]\<close> to \<open>offsets[i + 1]\<close>;
  \<open>copy_bitmask\<close> copies the validity buffer when there is one.
\<close>

definition nullable :: "'a column_view \<Rightarrow> bool" where
  "nullable c = (col_null_mask c \<noteq> None)"

definition has_nulls :: "'a column_view \<Rightarrow> bool" where
  "has_nulls c = (col_null_count c > 0)"

definition is_empty :: "'a column_view \<Rightarrow> bool" where
  "is_empty c = (col_size c = 0)"

definition is_valid_row :: "'a column_view \<Rightarrow> nat \<Rightarrow> bool" where
  "is_valid_row c i = (case col_null_mask c of None \<Rightarrow> True | Some m \<Rightarrow> is_valid m i)"

definition is_null :: "'a column_view \<Rightarrow> nat \<Rightarrow> bool" where
  "is_null c i = (\<not> is_valid_row c i)"

definition element_string :: "'a column_view \<Rightarrow> nat \<Rightarrow> string" where
  "element_string c i =
     take (col_offsets c ! Suc i - col_offsets c ! i) (drop (col_offsets c ! i) (col_chars c))"

definition copy_bitmask :: "'a column_view \<Rightarrow> bit_mask_t list option" where
  "copy_bitmask c = col_null_mask c"

text \<open>
  Modelled from the spec: the pair iterators. Over a column, position \<open>i\<close> yields the
  element and its validity, the validity being \<open>true\<close> throughout when the iterator is
  built without nulls; over a scalar, every position yields the value and its validity.
\<close>

definition column_pair :: "bool \<Rightarrow> 'a column_view \<Rightarrow> nat \<Rightarrow> 'a \<times> bool" where
  "column_pair with_nulls c i = (col_data c ! i, if with_nulls then is_valid_row c i else True)"

definition scalar_pair :: "'a scalar \<Rightarrow> 'a \<times> bool" where
  "scalar_pair s = (scalar_value s, scalar_is_valid s)"

definition string_scalar_pair :: "'a scalar \<Rightarrow> string \<times> bool" where
  "string_scalar_pair s = (scalar_string s, scalar_is_valid s)"

subsection \<open>Fixed-width columns\<close>

text \<open>
  The lambda \<open>trans\<close> of \<open>clamper\<close>; the scalar tuple is \<open>(lo, lo_replace, hi, hi_replace)\<close>,
  each a pair of value and validity.
\<close>

definition trans_fn ::
  "('a::ord) \<times> bool \<Rightarrow> ('a \<times> bool) \<times> ('a \<times> bool) \<times> ('a \<times> bool) \<times> ('a \<times> bool) \<Rightarrow> 'a" where
  "trans_fn element_validity_pair scalar_tuple =
     (case scalar_tuple of (lo_validity_pair, lo_replace_pair, hi_validity_pair, hi_replace_pair) \<Rightarrow>
        if snd element_validity_pair then
          if snd lo_validity_pair \<and> fst element_validity_pair < fst lo_validity_pair
          then fst lo_replace_pair
          else if snd hi_validity_pair \<and> fst element_validity_pair > fst hi_validity_pair
          then fst hi_replace_pair
          else fst element_validity_pair
        else fst element_validity_pair)"

text \<open>
  \<open>clamper\<close> for a fixed-width type: the output is allocated like the input without a mask
  (null count 0), receives a copy of the input's mask and its null count when the input is
  nullable, and \<open>thrust::transform\<close> writes every row.
\<close>

definition clamper ::
  "('a::ord) column_view \<Rightarrow> 'a \<times> bool \<Rightarrow> 'a \<times> bool \<Rightarrow> 'a \<times> bool \<Rightarrow> 'a \<times> bool
     \<Rightarrow> 'a column_view" where
  "clamper input lo_itr lo_replace_itr hi_itr hi_replace_itr =
     (let output = \<lparr>col_type = col_type input, col_size = col_size input, col_data = [],
                     col_null_mask = None, col_null_count = 0, col_offsets = [],
                     col_chars = []\<rparr>;
          output = (if nullable input
                    then output\<lparr>col_null_mask := copy_bitmask input,
                                col_null_count := col_null_count input\<rparr>
                    else output);
          scalar_zip = (lo_itr, lo_replace_itr, hi_itr, hi_replace_itr)
      in output\<lparr>col_data :=
           map (\<lambda>i. trans_fn (column_pair (has_nulls input) input i) scalar_zip)
             [0..<col_size input]\<rparr>)"

subsection \<open>String columns\<close>

text \<open>
  \<open>memcpy\<close> writes the bytes of \<open>src\<close> into \<open>dst\<close> from position \<open>pos\<close> on.
\<close>

definition memcpy :: "string \<Rightarrow> nat \<Rightarrow> string \<Rightarrow> string" where
  "memcpy dst pos src = fold (\<lambda>k cs. cs[pos + k := src ! k]) [0..<length src] dst"

text \<open>
  \<open>form_offsets_and_char_column\<close>: the sizes come from the transformer, applied to every
  row; for a nullable input a null row is replaced by the empty string first. The offsets
  are the running sums, \<open>n + 1\<close> of them, and the bytes buffer has the total size and is not
  initialised (\<open>uninit\<close> gives its contents).
\<close>

definition form_offsets_and_char_column ::
  "(nat \<Rightarrow> char) \<Rightarrow> 'a column_view \<Rightarrow> (string \<Rightarrow> nat) \<Rightarrow> nat list \<times> string" where
  "form_offsets_and_char_column uninit input offsets_transformer =
     (let strings_count = col_size input;
          sizes = (if nullable input
                   then map (\<lambda>i. offsets_transformer
                                     (if is_valid_row input i then element_string input i else []))
                          [0..<strings_count]
                   else map (\<lambda>i. offsets_transformer (element_string input i))
                          [0..<strings_count]);
          offsets = ExclusiveSum (sizes @ [0]);
          bytes = offsets ! strings_count
      in (offsets, map uninit [0..<bytes]))"

text \<open>
  The body shared by the three branches of \<open>clamp_string_column\<close>: \<open>pick\<close> is the string a
  row is replaced by. The offsets transformer returns its size; the copy transformer skips
  a null row and copies the picked string to the row's offset otherwise.
\<close>

definition clamp_strings_with ::
  "(nat \<Rightarrow> char) \<Rightarrow> 'a column_view \<Rightarrow> (string \<Rightarrow> string) \<Rightarrow> 'a column_view" where
  "clamp_strings_with uninit input pick =
     (let strings_count = col_size input;
          offset_and_char = form_offsets_and_char_column uninit input (\<lambda>element. length (pick element));
          d_offsets = fst offset_and_char;
          d_chars = fold (\<lambda>idx chars.
                       if is_null input idx then chars
                       else memcpy chars (d_offsets ! idx) (pick (element_string input idx)))
                      [0..<strings_count] (snd offset_and_char)
      in \<lparr>col_type = STRING, col_size = strings_count, col_data = [],
          col_null_mask = copy_bitmask input, col_null_count = col_null_count input,
          col_offsets = d_offsets, col_chars = d_chars\<rparr>)"

definition clamp_string_column ::
  "(nat \<Rightarrow> char) \<Rightarrow> 'a column_view \<Rightarrow> string \<times> bool \<Rightarrow> string \<times> bool \<Rightarrow> string \<times> bool
     \<Rightarrow> string \<times> bool \<Rightarrow> 'a column_view" where
  "clamp_string_column uninit input lo_itr lo_replace_itr hi_itr hi_replace_itr =
     (let d_lo = fst lo_itr; d_hi = fst hi_itr;
          d_lo_replace = fst lo_replace_itr; d_hi_replace = fst hi_replace_itr;
          lo_valid = snd lo_itr; hi_valid = snd hi_itr
      in if lo_valid \<and> hi_valid then
           clamp_strings_with uninit input
             (\<lambda>element. if element < d_lo then d_lo_replace
                        else if d_hi < element then d_hi_replace else element)
         else if hi_valid then
           clamp_strings_with uninit input
             (\<lambda>element. if d_hi < element then d_hi_replace else element)
         else
           clamp_strings_with uninit input
             (\<lambda>element. if element < d_lo then d_lo_replace else element))"

subsection \<open>The entry point\<close>

text \<open>
  \<open>dispatch_clamp\<close> under the type dispatcher: the string specialisation for \<open>STRING\<close>,
  the fixed-width one for the fixed-width types, and the dispatcher's failure for a type
  with no specialisation.
\<close>

definition dispatch_clamp ::
  "(nat \<Rightarrow> char) \<Rightarrow> ('a::ord) column_view \<Rightarrow> 'a scalar \<Rightarrow> 'a scalar \<Rightarrow> 'a scalar \<Rightarrow> 'a scalar
     \<Rightarrow> error + 'a column_view" where
  "dispatch_clamp uninit input lo lo_replace hi hi_replace =
     (if col_type input = STRING
      then Inr (clamp_string_column uninit input (string_scalar_pair lo)
                  (string_scalar_pair lo_replace) (string_scalar_pair hi)
                  (string_scalar_pair hi_replace))
      else if is_fixed_width (col_type input)
      then Inr (clamper input (scalar_pair lo) (scalar_pair lo_replace) (scalar_pair hi)
                  (scalar_pair hi_replace))
      else Inl (logic_error ''Unsupported type_id.''))"

text \<open>
  \<open>detail::clamp\<close>. The copy of the input that the early return makes is the input as a
  value.
\<close>

definition clamp ::
  "(nat \<Rightarrow> char) \<Rightarrow> ('a::ord) column_view \<Rightarrow> 'a scalar \<Rightarrow> 'a scalar \<Rightarrow> 'a scalar \<Rightarrow> 'a scalar
     \<Rightarrow> error + 'a column_view" where
  "clamp uninit input lo lo_replace hi hi_replace =
     (if scalar_type lo \<noteq> scalar_type hi
      then Inl (logic_error ''mismatching types of limit scalars'')
      else if scalar_type lo_replace \<noteq> scalar_type hi_replace
      then Inl (logic_error ''mismatching types of replace scalars'')
      else if scalar_type lo \<noteq> scalar_type lo_replace
      then Inl (logic_error ''mismatching types of limit and replace scalars'')
      else if scalar_type lo \<noteq> col_type input
      then Inl (logic_error ''mismatching types of scalar and input'')
      else if (\<not> scalar_is_valid lo \<and> \<not> scalar_is_valid hi) \<or> is_empty input
      then Inr input
      else if scalar_is_valid lo \<and> \<not> scalar_is_valid lo_replace
      then Inl (logic_error (''lo_replace can'' @ [CHR 0x27] @ ''t be null''))
      else if scalar_is_valid hi \<and> \<not> scalar_is_valid hi_replace
      then Inl (logic_error (''hi_replace can'' @ [CHR 0x27] @ ''t be null''))
      else dispatch_clamp uninit input lo lo_replace hi hi_replace)"

text \<open>
  The two public overloads: with replacement scalars, and clamping to the limits
  themselves.
\<close>

definition clamp_replace ::
  "(nat \<Rightarrow> char) \<Rightarrow> ('a::ord) column_view \<Rightarrow> 'a scalar \<Rightarrow> 'a scalar \<Rightarrow> 'a scalar \<Rightarrow> 'a scalar
     \<Rightarrow> error + 'a column_view" where
  "clamp_replace uninit input lo lo_replace hi hi_replace =
     clamp uninit input lo lo_replace hi hi_replace"

definition clamp_limits ::
  "(nat \<Rightarrow> char) \<Rightarrow> ('a::ord) column_view \<Rightarrow> 'a scalar \<Rightarrow> 'a scalar \<Rightarrow> error + 'a column_view" where
  "clamp_limits uninit input lo hi = clamp uninit input lo lo hi hi"

text \<open>
  A filler for bytes that are allocated and never written, used in the examples.
\<close>

definition zero_bytes :: "nat \<Rightarrow> char" where
  "zero_bytes i = CHR 0x00"

section \<open>Properties of \<open>copy_if\<close>\<close>

subsection \<open>The exclusive scan\<close>

lemma nth_ExclusiveSum_from:
  "i < length xs \<Longrightarrow> ExclusiveSum_from acc xs ! i = acc + sum_list (take i xs)"
proof (induction xs arbitrary: acc i)
  case Nil
  then show ?case by simp
next
  case (Cons x xs)
  show ?case
  proof (cases i)
    case 0
    then show ?thesis by simp
  next
    case (Suc j)
    with Cons.prems have "j < length xs" by simp
    from Cons.IH [OF this, of "acc + x"] Suc show ?thesis by simp
  qed
qed

lemma nth_scan_block_counts:
  assumes "length block_counts = num_blocks" and "i < num_blocks"
  shows "scan_block_counts num_blocks block_counts ! i = sum_list (take i block_counts)"
proof (cases "num_blocks > 1")
  case True
  with assms show ?thesis
    by (simp add: scan_block_counts_def ExclusiveSum_def nth_ExclusiveSum_from)
next
  case False
  with assms have "i = 0" by simp
  with assms False show ?thesis by (simp add: scan_block_counts_def)
qed

lemma sum_list_take_last:
  "0 < length xs \<Longrightarrow> sum_list (take (length xs - 1) xs) + xs ! (length xs - 1) = sum_list (xs :: nat list)"
proof (induction xs rule: rev_induct)
  case Nil
  then show ?case by simp
next
  case (snoc x xs)
  show ?case by (simp add: nth_append)
qed

lemma get_output_size_sum:
  assumes "length block_counts = num_blocks" and "0 < num_blocks"
  shows "get_output_size block_counts (scan_block_counts num_blocks block_counts) num_blocks
           = sum_list block_counts"
proof -
  have "scan_block_counts num_blocks block_counts ! (num_blocks - 1)
          = sum_list (take (num_blocks - 1) block_counts)"
    using assms by (intro nth_scan_block_counts) simp_all
  moreover have "num_blocks = 1 \<Longrightarrow> sum_list (take (num_blocks - 1) block_counts) = 0"
    by simp
  ultimately show ?thesis
    using assms sum_list_take_last [of block_counts]
    by (cases "num_blocks > 1") (auto simp: get_output_size_def Let_def)
qed

text \<open>
  C5. After the scan stage \<open>block_offsets[i]\<close> is the sum of \<open>block_counts[j]\<close> over
  \<open>j < i\<close>; with exactly one block its offset is zero; and the resolved output size is
  \<open>block_offsets[last] + block_counts[last]\<close>. The arrays have \<open>num_blocks\<close> entries and
  there is at least one block, as there is whenever \<open>copy_if\<close> reaches the scan.
\<close>

theorem scan_stage_exclusive_prefix_sum:
  assumes "length block_counts = num_blocks" and "0 < num_blocks"
  shows "(\<forall>i<num_blocks.
            scan_block_counts num_blocks block_counts ! i = sum_list (take i block_counts))
       \<and> (num_blocks = 1 \<longrightarrow> scan_block_counts num_blocks block_counts = [0])
       \<and> get_output_size block_counts (scan_block_counts num_blocks block_counts) num_blocks
           = scan_block_counts num_blocks block_counts ! (num_blocks - 1)
             + block_counts ! (num_blocks - 1)"
proof (intro conjI allI impI)
  fix i assume "i < num_blocks"
  with assms(1) show "scan_block_counts num_blocks block_counts ! i = sum_list (take i block_counts)"
    by (rule nth_scan_block_counts)
next
  assume "num_blocks = 1"
  then show "scan_block_counts num_blocks block_counts = [0]"
    by (simp add: scan_block_counts_def)
next
  have "scan_block_counts num_blocks block_counts ! (num_blocks - 1)
          = sum_list (take (num_blocks - 1) block_counts)"
    using assms by (intro nth_scan_block_counts) simp_all
  then show "get_output_size block_counts (scan_block_counts num_blocks block_counts) num_blocks
           = scan_block_counts num_blocks block_counts ! (num_blocks - 1)
             + block_counts ! (num_blocks - 1)"
    using assms by (cases "num_blocks > 1") (auto simp: get_output_size_def Let_def)
qed

theorem scan_stage_exclusive_prefix_sum_witness:
  "scan_block_counts 3 [3, 1, 4] = [0, 3, 4]
   \<and> get_output_size [3, 1, 4] (scan_block_counts 3 [3, 1, 4]) 3 = 8
   \<and> scan_block_counts 1 [5] = [0]"
  using scan_stage_exclusive_prefix_sum [of "[3, 1, 4]" 3]
    scan_stage_exclusive_prefix_sum [of "[5]" 1]
  by (simp add: scan_block_counts_def ExclusiveSum_def get_output_size_def)

subsection \<open>Counting the rows that pass\<close>

lemma filter_shift_upt:
  "filter (\<lambda>x. P (t + x)) [0..<b] = map (\<lambda>y. y - t) (filter P [t..<t + b])"
proof -
  have "[t..<t + b] = map (\<lambda>x. t + x) [0..<b]"
    using map_add_upt [of t b] by (simp add: add.commute)
  then show ?thesis by (simp add: filter_map comp_def)
qed

lemma syncthreads_count_range:
  "syncthreads_count block_size (\<lambda>x. filt (tid + x)) = length (filter filt [tid..<tid + block_size])"
  by (simp add: syncthreads_count_def filter_shift_upt)

lemma compute_block_counts_loop_range:
  "compute_block_counts_loop block_size filt i tid count
     = count + length (filter filt [tid..<tid + i * block_size])"
proof (induction i arbitrary: tid count)
  case 0
  then show ?case by simp
next
  case (Suc i)
  have "[tid..<tid + Suc i * block_size]
          = [tid..<tid + block_size] @ [tid + block_size..<tid + block_size + i * block_size]"
    using upt_add_eq_append [of tid "tid + block_size" "i * block_size"] by (simp add: add.assoc)
  then show ?case
    by (simp add: Suc.IH syncthreads_count_range)
qed

lemma sum_list_block_counts:
  "sum_list (launch_compute_block_counts num_blocks block_size per_thread filt)
     = length (filter filt [0..<num_blocks * (per_thread * block_size)])"
proof (induction num_blocks)
  case 0
  then show ?case by (simp add: launch_compute_block_counts_def)
next
  case (Suc k)
  have split: "[0..<Suc k * (per_thread * block_size)]
          = [0..<k * (per_thread * block_size)]
            @ [k * (per_thread * block_size)..<k * (per_thread * block_size) + per_thread * block_size]"
    using upt_add_eq_append [of 0 "k * (per_thread * block_size)" "per_thread * block_size"]
    by (simp add: add.commute)
  have "compute_block_counts block_size per_thread filt k
          = length (filter filt [k * (per_thread * block_size)..<k * (per_thread * block_size) + per_thread * block_size])"
    by (simp add: compute_block_counts_def compute_block_counts_loop_range mult.commute)
  with Suc show ?case
    unfolding split by (simp add: launch_compute_block_counts_def)
qed

lemma take_block_counts:
  "k \<le> num_blocks \<Longrightarrow>
   take k (launch_compute_block_counts num_blocks block_size per_thread filt)
     = launch_compute_block_counts k block_size per_thread filt"
  by (simp add: launch_compute_block_counts_def take_map)

lemma filter_beyond_rows:
  assumes "\<forall>i\<ge>n. \<not> filt i" and "n \<le> m"
  shows "filter filt [0..<m] = filter filt [0..<n]"
proof -
  from assms(2) have "[0..<m] = [0..<n] @ [n..<m]"
    using upt_add_eq_append [of 0 n "m - n"] by simp
  moreover from assms(1) have "filter filt [n..<m] = []"
    by (simp add: filter_empty_conv)
  ultimately show ?thesis by simp
qed

lemma grid_covers:
  assumes "0 < block_size * per_thread"
  shows "n \<le> grid_num_blocks n block_size per_thread * (per_thread * block_size)"
proof -
  let ?d = "block_size * per_thread"
  have "n + ?d - 1 < ((n + ?d - 1) div ?d) * ?d + ?d"
    using assms by (metis add.commute div_mult_mod_eq add_less_cancel_left mod_less_divisor)
  then have "n \<le> ((n + ?d - 1) div ?d) * ?d" by simp
  then show ?thesis by (simp add: grid_num_blocks_def mult.commute)
qed

lemma grid_num_blocks_pos:
  "0 < n \<Longrightarrow> 0 < block_size * per_thread \<Longrightarrow> 0 < grid_num_blocks n block_size per_thread"
  by (simp add: grid_num_blocks_def div_greater_zero_iff)

lemma length_filter_card: "length (filter P [0..<n]) = card {i. i < n \<and> P i}"
proof -
  have "card (set (filter P [0..<n])) = length (filter P [0..<n])"
    by (rule distinct_card) simp
  moreover have "set (filter P [0..<n]) = {i. i < n \<and> P i}" by auto
  ultimately show ?thesis by simp
qed

lemma output_size_count:
  assumes "0 < n" and "\<forall>i\<ge>n. \<not> filt i" and "0 < block_size * per_thread"
  defines "num_blocks \<equiv> grid_num_blocks n block_size per_thread"
  defines "block_counts \<equiv> launch_compute_block_counts num_blocks block_size per_thread filt"
  shows "get_output_size block_counts (scan_block_counts num_blocks block_counts) num_blocks
           = length (filter filt [0..<n])"
proof -
  have len: "length block_counts = num_blocks"
    by (simp add: block_counts_def launch_compute_block_counts_def)
  have pos: "0 < num_blocks"
    unfolding num_blocks_def using assms(1,3) by (rule grid_num_blocks_pos)
  have "get_output_size block_counts (scan_block_counts num_blocks block_counts) num_blocks
          = sum_list block_counts"
    using len pos by (rule get_output_size_sum)
  also have "\<dots> = length (filter filt [0..<num_blocks * (per_thread * block_size)])"
    by (simp add: block_counts_def sum_list_block_counts)
  also have "\<dots> = length (filter filt [0..<n])"
    unfolding num_blocks_def
    by (rule arg_cong [where f = length], rule filter_beyond_rows [OF assms(2)],
        rule grid_covers [OF assms(3)])
  finally show ?thesis .
qed

text \<open>
  Every row index a thread computes fits the 32-bit \<open>int\<close> that holds \<open>tid\<close>, for every
  row count a \<open>gdf_size_type\<close> can hold, with the block shape \<open>copy_if\<close> uses.
\<close>

lemma tid_fits_int32:
  assumes "n < 2 ^ 31" and "blockIdx < grid_num_blocks n 256 32" and "i < 32" and "x < 256"
  shows "32 * 256 * blockIdx + i * 256 + x < (2 :: nat) ^ 31"
proof -
  from assms(1) have "n + 8191 < 262145 * 8192" by simp
  then have "(n + 8191) div 8192 < 262145" by (simp add: div_less_iff_less_mult)
  with assms(2) have "blockIdx < 262144" by (simp add: grid_num_blocks_def)
  with assms(3,4) show ?thesis by simp
qed

subsection \<open>The entry checks\<close>

text \<open>
  C6. A table with at least one row and one column in which some column has a null data
  buffer makes \<open>copy_if\<close> throw \<open>logic_error "Null input data"\<close>; no kernel has been
  launched and no table is returned.
\<close>

theorem copy_if_null_input_data:
  assumes "num_rows input \<noteq> 0" and "num_columns input \<noteq> 0"
    and "\<exists>c \<in> set input. data c = None"
  shows "copy_if uninit input filt = ([], Inl (logic_error ''Null input data''))"
proof -
  from assms(3) have "\<not> list_all (\<lambda>c. data c \<noteq> None) input"
    by (auto simp: list_all_iff)
  with assms(1,2) show ?thesis by (simp add: copy_if_def)
qed

theorem copy_if_null_input_data_witness:
  "copy_if (\<lambda>_. 0 :: int)
     [\<lparr>data = Some [1, 2], valid = None, size_gdf = 2, dtype = GDF_INT32, null_count = 0\<rparr>,
      \<lparr>data = None, valid = None, size_gdf = 2, dtype = GDF_INT64, null_count = 0\<rparr>]
     (\<lambda>i. i < 1)
   = ([], Inl (logic_error ''Null input data''))"
  using copy_if_null_input_data
    [of "[\<lparr>data = Some [1, 2], valid = None, size_gdf = 2, dtype = GDF_INT32, null_count = 0\<rparr>,
          \<lparr>data = None, valid = None, size_gdf = 2, dtype = GDF_INT64, null_count = 0\<rparr>]"
        "\<lambda>_. 0 :: int" "\<lambda>i. i < 1"]
  by (simp add: num_rows_def num_columns_def)

subsection \<open>The shape of the result\<close>

lemma fold_update_columns:
  "n \<le> length out \<Longrightarrow>
   fold (\<lambda>col acc. acc[col := f col (acc ! col)]) [0..<n] out
     = map (\<lambda>i. if i < n then f i (out ! i) else out ! i) [0..<length out]"
proof (induction n)
  case 0
  then show ?case by (simp add: map_nth)
next
  case (Suc n)
  then have IH: "fold (\<lambda>col acc. acc[col := f col (acc ! col)]) [0..<n] out
     = map (\<lambda>i. if i < n then f i (out ! i) else out ! i) [0..<length out]" by simp
  from Suc.prems have n: "n < length out" by simp
  show ?case
    unfolding upt_Suc_append [OF le0] fold_append comp_def IH
    using n by (auto intro!: nth_equalityI simp: nth_list_update less_Suc_eq)
qed

lemma num_rows_empty_like: "num_rows (empty_like t) = 0"
  by (cases t) (simp_all add: num_rows_def empty_like_def empty_like_column_def)

lemma size_gdf_scatter_functor:
  "size_gdf (scatter_functor block_size per_thread uninit oc ic block_offsets filt) = size_gdf oc"
  by (simp add: scatter_functor_def Let_def)

lemma scatter_all_columns:
  "fold (\<lambda>col out. out[col := scatter_functor 256 32 uninit (out ! col) (input ! col)
                                  block_offsets filt])
     [0..<num_columns input] (allocate_like uninit input output_size True)
   = map (scattered_column uninit output_size block_offsets filt) input"
proof -
  let ?alloc = "allocate_like uninit input output_size True"
  have len: "length ?alloc = length input" by (simp add: allocate_like_def)
  have "fold (\<lambda>col out. out[col := scatter_functor 256 32 uninit (out ! col) (input ! col)
                                  block_offsets filt]) [0..<num_columns input] ?alloc
        = map (\<lambda>i. if i < num_columns input
                    then scatter_functor 256 32 uninit (?alloc ! i) (input ! i) block_offsets filt
                    else ?alloc ! i) [0..<length ?alloc]"
    using fold_update_columns [of "num_columns input" ?alloc
        "\<lambda>col oc. scatter_functor 256 32 uninit oc (input ! col) block_offsets filt"]
    by (simp add: len num_columns_def)
  also have "\<dots> = map (scattered_column uninit output_size block_offsets filt) input"
    by (rule nth_equalityI)
       (simp_all add: len num_columns_def scattered_column_def allocate_like_def)
  finally show ?thesis .
qed


lemma num_rows_pos_columns: "0 < num_rows input \<Longrightarrow> 0 < num_columns input"
  by (cases input) (simp_all add: num_rows_def num_columns_def)

lemma copy_if_resolved:
  assumes rows: "0 < num_rows input"
    and bufs: "list_all (\<lambda>c. data c \<noteq> None) input"
    and contract: "\<forall>i\<ge>num_rows input. \<not> filt i"
  defines "count \<equiv> length (filter filt [0..<num_rows input])"
  defines "num_blocks \<equiv> grid_num_blocks (num_rows input) 256 32"
  defines "block_offsets \<equiv>
     scan_block_counts num_blocks (launch_compute_block_counts num_blocks 256 32 filt)"
  shows "copy_if uninit input filt =
     (Launch_compute_block_counts # (if num_blocks > 1 then [Launch_ExclusiveSum] else [])
        @ (if count \<noteq> num_rows input \<and> 0 < count
           then map Launch_scatter_kernel [0..<num_columns input] else []),
      Inr (if count = num_rows input then input
           else if 0 < count then map (scattered_column uninit count block_offsets filt) input
           else empty_like input))"
proof -
  have size: "get_output_size (launch_compute_block_counts num_blocks 256 32 filt)
                block_offsets num_blocks = count"
    unfolding block_offsets_def num_blocks_def count_def
    using rows contract by (intro output_size_count) simp_all
  have cols: "0 < num_columns input"
    using rows by (rule num_rows_pos_columns)
  show ?thesis
    using rows cols bufs
    by (simp add: copy_if_def Let_def size
          scatter_all_columns copy_def
          block_offsets_def [symmetric] num_blocks_def [symmetric])
qed


lemma get_output_size_last:
  assumes "length block_counts = num_blocks" and "0 < num_blocks"
  shows "get_output_size block_counts (scan_block_counts num_blocks block_counts) num_blocks
           = scan_block_counts num_blocks block_counts ! (num_blocks - 1)
             + block_counts ! (num_blocks - 1)"
proof -
  have "scan_block_counts num_blocks block_counts ! (num_blocks - 1)
          = sum_list (take (num_blocks - 1) block_counts)"
    using assms by (intro nth_scan_block_counts) simp_all
  then show ?thesis
    using assms by (cases "num_blocks > 1") (auto simp: get_output_size_def Let_def)
qed

lemma num_rows_scattered:
  "input \<noteq> [] \<Longrightarrow>
   num_rows (map (scattered_column uninit count block_offsets filt) input) = count"
  by (cases input)
     (simp_all add: num_rows_def scattered_column_def size_gdf_scatter_functor
        allocate_like_column_def)

text \<open>
  C1. Let the filter be false from the row count on, and let the entry checks pass (no
  rows, no columns, or no null data buffer). Then \<open>copy_if\<close> returns a table whose row
  count is the number of rows \<open>i\<close> below the input row count with \<open>filt i\<close>; and when the
  table has rows, that number is the last block's offset plus the last block's count.
\<close>

theorem copy_if_row_count:
  assumes "\<forall>i\<ge>num_rows input. \<not> filt i"
    and "0 = num_rows input \<or> 0 = num_columns input \<or> list_all (\<lambda>c. data c \<noteq> None) input"
  shows "\<exists>output. snd (copy_if uninit input filt) = Inr output
           \<and> num_rows output = card {i. i < num_rows input \<and> filt i}
           \<and> (0 < num_rows input \<longrightarrow>
                (let num_blocks = grid_num_blocks (num_rows input) 256 32;
                     block_counts = launch_compute_block_counts num_blocks 256 32 filt;
                     block_offsets = scan_block_counts num_blocks block_counts
                 in num_rows output
                      = block_offsets ! (num_blocks - 1) + block_counts ! (num_blocks - 1)))"
proof (cases "0 < num_rows input")
  case False
  then have "snd (copy_if uninit input filt) = Inr (empty_like input)"
    by (simp add: copy_if_def)
  with False show ?thesis by (simp add: num_rows_empty_like)
next
  case True
  then have cols: "0 < num_columns input" by (rule num_rows_pos_columns)
  with True assms(2) have bufs: "list_all (\<lambda>c. data c \<noteq> None) input" by simp
  let ?n = "num_rows input"
  let ?count = "length (filter filt [0..<?n])"
  let ?nb = "grid_num_blocks ?n 256 32"
  let ?bc = "launch_compute_block_counts ?nb 256 32 filt"
  let ?bo = "scan_block_counts ?nb ?bc"
  let ?out = "if ?count = ?n then input
              else if 0 < ?count then map (scattered_column uninit ?count ?bo filt) input
              else empty_like input"
  have res: "snd (copy_if uninit input filt) = Inr ?out"
    using copy_if_resolved [OF True bufs assms(1)] by simp
  have ne: "input \<noteq> []" using cols by (auto simp: num_columns_def)
  have rows: "num_rows ?out = ?count"
    using ne by (simp add: num_rows_scattered num_rows_empty_like)
  have len: "length ?bc = ?nb" by (simp add: launch_compute_block_counts_def)
  have pos: "0 < ?nb" using True by (intro grid_num_blocks_pos) simp_all
  have "?bo ! (?nb - 1) + ?bc ! (?nb - 1) = get_output_size ?bc ?bo ?nb"
    using get_output_size_last [OF len pos] by simp
  also have "\<dots> = ?count"
    using True assms(1) by (intro output_size_count) simp_all
  finally have last: "?bo ! (?nb - 1) + ?bc ! (?nb - 1) = ?count" .
  show ?thesis
    unfolding res using rows last
    by (intro exI [of _ ?out]) (simp add: Let_def length_filter_card)
qed

theorem copy_if_row_count_witness:
  "\<exists>output. snd (copy_if (\<lambda>_. 0 :: int)
       [\<lparr>data = Some [10, 20, 30], valid = None, size_gdf = 3, dtype = GDF_INT32, null_count = 0\<rparr>]
       (\<lambda>i. i = 0 \<or> i = 2)) = Inr output \<and> num_rows output = 2"
proof -
  have "card {i :: nat. i < 3 \<and> (i = 0 \<or> i = 2)} = 2"
    unfolding length_filter_card [symmetric] by code_simp
  then show ?thesis
    using copy_if_row_count
      [of "[\<lparr>data = Some [10, 20, 30], valid = None, size_gdf = 3, dtype = GDF_INT32, null_count = 0\<rparr>]"
          "\<lambda>i. i = 0 \<or> i = 2" "\<lambda>_. 0 :: int"]
    by (auto simp: num_rows_def)
qed

lemma dtype_empty_like: "map dtype (empty_like t) = map dtype t"
  by (simp add: empty_like_def empty_like_column_def comp_def)

lemma filter_all_false: "\<forall>i<n. \<not> P i \<Longrightarrow> filter P [0..<n] = []"
  by (simp add: filter_empty_conv)

text \<open>
  C7. A table with no rows or no columns gives \<open>empty_like\<close> of the input and an empty
  launch log. A table with rows, whose data buffers are present, under a filter that is
  false on every row (and, by its contract, beyond the rows) gives \<open>empty_like\<close> of the
  input as well, after the counting kernels only. \<open>empty_like\<close> has no rows, and the column
  count and the column types of the input.
\<close>

theorem copy_if_empty_results:
  "(0 = num_rows input \<or> 0 = num_columns input \<longrightarrow>
      copy_if uninit input filt = ([], Inr (empty_like input)))
   \<and> (0 < num_rows input \<and> list_all (\<lambda>c. data c \<noteq> None) input
        \<and> (\<forall>i<num_rows input. \<not> filt i) \<and> (\<forall>i\<ge>num_rows input. \<not> filt i) \<longrightarrow>
      snd (copy_if uninit input filt) = Inr (empty_like input)
      \<and> (\<forall>col. Launch_scatter_kernel col \<notin> set (fst (copy_if uninit input filt))))
   \<and> num_rows (empty_like input) = 0
   \<and> num_columns (empty_like input) = num_columns input
   \<and> map dtype (empty_like input) = map dtype input"
proof (intro conjI impI)
  assume "0 = num_rows input \<or> 0 = num_columns input"
  then show "copy_if uninit input filt = ([], Inr (empty_like input))"
    by (auto simp: copy_if_def)
next
  assume h: "0 < num_rows input \<and> list_all (\<lambda>c. data c \<noteq> None) input
        \<and> (\<forall>i<num_rows input. \<not> filt i) \<and> (\<forall>i\<ge>num_rows input. \<not> filt i)"
  then have none: "filter filt [0..<num_rows input] = []"
    by (intro filter_all_false) simp
  from h have r: "0 < num_rows input" and b: "list_all (\<lambda>c. data c \<noteq> None) input"
    and c: "\<forall>i\<ge>num_rows input. \<not> filt i" by simp_all
  show "snd (copy_if uninit input filt) = Inr (empty_like input)"
    using r by (simp add: copy_if_resolved [OF r b c] none)
  show "\<forall>col. Launch_scatter_kernel col \<notin> set (fst (copy_if uninit input filt))"
    by (simp add: copy_if_resolved [OF r b c] none)
next
  show "num_rows (empty_like input) = 0" by (rule num_rows_empty_like)
  show "num_columns (empty_like input) = num_columns input"
    by (simp add: num_columns_def empty_like_def)
  show "map dtype (empty_like input) = map dtype input" by (rule dtype_empty_like)
qed

theorem copy_if_empty_results_witness:
  "copy_if (\<lambda>_. 0 :: int)
     [\<lparr>data = None, valid = None, size_gdf = 0, dtype = GDF_INT32, null_count = 0\<rparr>] (\<lambda>i. False)
     = ([], Inr [\<lparr>data = None, valid = None, size_gdf = 0, dtype = GDF_INT32, null_count = 0\<rparr>])
   \<and> snd (copy_if (\<lambda>_. 0 :: int)
     [\<lparr>data = Some [10, 20, 30], valid = Some [7], size_gdf = 3, dtype = GDF_INT64, null_count = 0\<rparr>]
     (\<lambda>i. False))
     = Inr [\<lparr>data = None, valid = None, size_gdf = 0, dtype = GDF_INT64, null_count = 0\<rparr>]"
  using copy_if_empty_results
      [of "[\<lparr>data = None, valid = None, size_gdf = 0, dtype = GDF_INT32, null_count = 0\<rparr>]"
          "\<lambda>_. 0 :: int" "\<lambda>i. False"]
    copy_if_empty_results
      [of "[\<lparr>data = Some [10, 20, 30], valid = Some [7], size_gdf = 3, dtype = GDF_INT64, null_count = 0\<rparr>]"
          "\<lambda>_. 0 :: int" "\<lambda>i. False"]
  by (simp add: num_rows_def num_columns_def empty_like_def empty_like_column_def)

lemma filter_all_true: "\<forall>i<n. P i \<Longrightarrow> filter P [0..<n] = [0..<n]"
  by simp

text \<open>
  C4. For a table with rows whose data buffers are present, and a filter that is true on
  every row and false beyond them, \<open>copy_if\<close> returns \<open>copy input\<close>, which is the input
  itself: the same data, validity words and null count in every column. No scatter kernel
  is launched. (A table without rows never reaches the fast path; C7 covers it.)
\<close>

theorem copy_if_pass_through:
  assumes "0 < num_rows input" and "list_all (\<lambda>c. data c \<noteq> None) input"
    and "\<forall>i<num_rows input. filt i" and "\<forall>i\<ge>num_rows input. \<not> filt i"
  shows "snd (copy_if uninit input filt) = Inr (copy input) \<and> copy input = input
       \<and> (\<forall>col. Launch_scatter_kernel col \<notin> set (fst (copy_if uninit input filt)))"
proof -
  have "filter filt [0..<num_rows input] = [0..<num_rows input]"
    using assms(3) by (intro filter_all_true)
  then show ?thesis
    by (simp add: copy_if_resolved [OF assms(1,2,4)] copy_def)
qed

theorem copy_if_pass_through_witness:
  "copy_if (\<lambda>_. 0 :: int)
     [\<lparr>data = Some [0, 1, 2, 3, 4, 5, 6, 7], valid = Some [245], size_gdf = 8,
       dtype = GDF_INT32, null_count = 2\<rparr>] (\<lambda>i. i < 8)
   = ([Launch_compute_block_counts],
      Inr [\<lparr>data = Some [0, 1, 2, 3, 4, 5, 6, 7], valid = Some [245], size_gdf = 8,
             dtype = GDF_INT32, null_count = 2\<rparr>])"
proof -
  let ?t = "[\<lparr>data = Some [0, 1, 2, 3, 4, 5, 6, 7 :: int], valid = Some [245], size_gdf = 8,
       dtype = GDF_INT32, null_count = 2\<rparr>]"
  have r: "0 < num_rows ?t" by (simp add: num_rows_def)
  have b: "list_all (\<lambda>c. data c \<noteq> None) ?t" by simp
  have p: "\<forall>i<num_rows ?t. i < 8" by (simp add: num_rows_def)
  have c: "\<forall>i\<ge>num_rows ?t. \<not> i < 8" by (simp add: num_rows_def)
  have "fst (copy_if (\<lambda>_. 0) ?t (\<lambda>i. i < 8)) = [Launch_compute_block_counts]"
    by (simp add: copy_if_resolved [OF r b c] num_rows_def grid_num_blocks_def)
  with copy_if_pass_through [OF r b p c, of "\<lambda>_. 0"] show ?thesis
    by (simp add: prod_eq_iff)
qed

subsection \<open>The scattered data\<close>

lemma fold_stage:
  "length (filter m [0..<k]) \<le> length td \<Longrightarrow>
   fold (\<lambda>x td. if m x then td[length (filter m [0..<x]) := f x] else td) [0..<k] td
     = map f (filter m [0..<k]) @ drop (length (filter m [0..<k])) td"
proof (induction k)
  case 0
  then show ?case by simp
next
  case (Suc k)
  let ?c = "length (filter m [0..<k])"
  from Suc.prems have le: "?c \<le> length td" by (simp split: if_splits)
  note IH = Suc.IH [OF le]
  show ?case
  proof (cases "m k")
    case False
    with IH show ?thesis by simp
  next
    case True
    with Suc.prems have lt: "?c < length td" by simp
    then have "(drop ?c td)[0 := f k] = f k # drop (Suc ?c) td"
      by (metis Cons_nth_drop_Suc list_update_code(2))
    with True IH show ?thesis
      by (simp add: list_update_append)
  qed
qed

lemma filter_shift_map:
  "map (\<lambda>x. d ! (t + x)) (filter (\<lambda>x. P (t + x)) [0..<b]) = map ((!) d) (filter P [t..<t + b])"
proof -
  have "[t..<t + b] = map (\<lambda>x. t + x) [0..<b]"
    using map_add_upt [of t b] by (simp add: add.commute)
  then show ?thesis by (simp add: filter_map comp_def)
qed

lemma stage_data_take:
  assumes "length temp_data = block_size"
  shows "take (length (filter filt [tid..<tid + block_size]))
           (stage_data block_size input_data filt tid temp_data)
         = map ((!) input_data) (filter filt [tid..<tid + block_size])"
    and "length (stage_data block_size input_data filt tid temp_data) = block_size"
proof -
  let ?m = "\<lambda>x. filt (tid + x)"
  have cnt: "length (filter ?m [0..<block_size]) = length (filter filt [tid..<tid + block_size])"
    using syncthreads_count_range [of block_size filt tid] by (simp add: syncthreads_count_def)
  have le: "length (filter ?m [0..<block_size]) \<le> length temp_data"
    using assms length_filter_le [of ?m "[0..<block_size]"] by simp
  have eq: "stage_data block_size input_data filt tid temp_data
          = map (\<lambda>x. input_data ! (tid + x)) (filter ?m [0..<block_size])
            @ drop (length (filter ?m [0..<block_size])) temp_data"
    unfolding stage_data_def block_scan_mask_def fst_conv
    by (rule fold_stage [OF le])
  show "take (length (filter filt [tid..<tid + block_size]))
           (stage_data block_size input_data filt tid temp_data)
         = map ((!) input_data) (filter filt [tid..<tid + block_size])"
    unfolding eq filter_shift_map cnt by simp
  show "length (stage_data block_size input_data filt tid temp_data) = block_size"
    unfolding eq using le assms by simp
qed

lemma fold_write:
  "length xs = block_offset \<Longrightarrow> block_sum \<le> length ys \<Longrightarrow> block_sum \<le> length temp \<Longrightarrow>
   fold (\<lambda>x od. if x < block_sum then od[block_offset + x := temp ! x] else od) [0..<k] (xs @ ys)
     = xs @ take (min k block_sum) temp @ drop (min k block_sum) ys"
proof (induction k)
  case 0
  then show ?case by simp
next
  case (Suc k)
  note IH = Suc.IH [OF Suc.prems]
  show ?case
  proof (cases "k < block_sum")
    case False
    then have "min (Suc k) block_sum = min k block_sum" by simp
    with False IH show ?thesis by simp
  next
    case True
    then have mk: "min k block_sum = k" "min (Suc k) block_sum = Suc k" by simp_all
    from True Suc.prems have kt: "k < length temp" and ky: "k < length ys" by simp_all
    have "(xs @ take k temp @ drop k ys)[block_offset + k := temp ! k]
            = xs @ take k temp @ (drop k ys)[0 := temp ! k]"
      using Suc.prems(1) kt by (simp add: list_update_append)
    also have "(drop k ys)[0 := temp ! k] = temp ! k # drop (Suc k) ys"
      using ky by (metis Cons_nth_drop_Suc list_update_code(2))
    also have "xs @ take k temp @ temp ! k # drop (Suc k) ys
                 = xs @ take (Suc k) temp @ drop (Suc k) ys"
      using kt by (simp add: take_Suc_conv_app_nth)
    finally show ?thesis
      using True IH by (simp add: mk)
  qed
qed

lemma write_data_append:
  assumes "length xs = block_offset" and "block_sum \<le> length ys"
    and "block_sum \<le> length temp" and "block_sum \<le> block_size"
  shows "write_data block_size block_offset block_sum temp (xs @ ys)
           = xs @ take block_sum temp @ drop block_sum ys"
  unfolding write_data_def fold_write [OF assms(1-3)] using assms(4) by (simp add: min_absorb2)


lemma scatter_tile_data:
  fixes input_data :: "'a list" and input_valid :: "bit_mask_t list" and has_validity :: bool
  assumes "length temp_data = block_size" and "output_data mem = xs @ ys"
    and "length xs = block_offset"
    and "length (filter filt [tid..<tid + block_size]) \<le> length ys"
  defines "r \<equiv> scatter_tile block_size has_validity input_data input_valid filt tid
                   block_offset temp_data mem"
  shows "fst r = length (filter filt [tid..<tid + block_size])"
    and "length (fst (snd r)) = block_size"
    and "output_data (snd (snd r))
           = xs @ map ((!) input_data) (filter filt [tid..<tid + block_size])
                @ drop (length (filter filt [tid..<tid + block_size])) ys"
proof -
  let ?bs = "length (filter filt [tid..<tid + block_size])"
  let ?td = "stage_data block_size input_data filt tid temp_data"
  have bs: "snd (block_scan_mask block_size (\<lambda>y. filt (tid + y)) 0) = ?bs"
    using syncthreads_count_range [of block_size filt tid]
    by (simp add: block_scan_mask_def syncthreads_count_def)
  have le: "?bs \<le> block_size"
    using length_filter_le [of filt "[tid..<tid + block_size]"] by simp
  have wd: "write_data block_size block_offset ?bs ?td (xs @ ys)
          = xs @ take ?bs ?td @ drop ?bs ys"
    using assms(3,4) le stage_data_take(2) [OF assms(1), of input_data filt tid]
    by (intro write_data_append) simp_all
  show "fst r = ?bs"
    by (simp add: r_def scatter_tile_def Let_def bs)
  show "length (fst (snd r)) = block_size"
    by (simp add: r_def scatter_tile_def Let_def stage_data_take(2) [OF assms(1)])
  show "output_data (snd (snd r))
           = xs @ map ((!) input_data) (filter filt [tid..<tid + block_size]) @ drop ?bs ys"
    by (simp add: r_def scatter_tile_def Let_def bs assms(2) wd
          stage_data_take(1) [OF assms(1)])
qed

lemma scatter_kernel_loop_data:
  assumes "length temp_data = block_size" and "output_data mem = xs @ ys"
    and "length xs = block_offset"
    and "length (filter filt [tid..<tid + i * block_size]) \<le> length ys"
  shows "output_data (scatter_kernel_loop block_size has_validity input_data input_valid filt i
                        tid block_offset temp_data mem)
           = xs @ map ((!) input_data) (filter filt [tid..<tid + i * block_size])
                @ drop (length (filter filt [tid..<tid + i * block_size])) ys"
  using assms
proof (induction i arbitrary: tid block_offset temp_data mem xs ys)
  case 0
  then show ?case by simp
next
  case (Suc i)
  let ?A = "filter filt [tid..<tid + block_size]"
  let ?B = "filter filt [tid + block_size..<tid + block_size + i * block_size]"
  let ?r = "scatter_tile block_size has_validity input_data input_valid filt tid
              block_offset temp_data mem"
  have split: "[tid..<tid + Suc i * block_size]
          = [tid..<tid + block_size] @ [tid + block_size..<tid + block_size + i * block_size]"
    using upt_add_eq_append [of tid "tid + block_size" "i * block_size"] by (simp add: add.assoc)
  from Suc.prems(4) have room: "length ?A + length ?B \<le> length ys"
    unfolding split by simp
  then have roomA: "length ?A \<le> length ys" by simp
  note tile = scatter_tile_data [OF Suc.prems(1,2,3) roomA,
      of has_validity input_data input_valid]
  have "output_data (scatter_kernel_loop block_size has_validity input_data input_valid filt i
          (tid + block_size) (block_offset + fst ?r) (fst (snd ?r)) (snd (snd ?r)))
        = (xs @ map ((!) input_data) ?A) @ map ((!) input_data) ?B
            @ drop (length ?B) (drop (length ?A) ys)"
  proof (rule Suc.IH)
    show "length (fst (snd ?r)) = block_size" by (rule tile(2))
    show "output_data (snd (snd ?r)) = (xs @ map ((!) input_data) ?A) @ drop (length ?A) ys"
      using tile(3) by simp
    show "length (xs @ map ((!) input_data) ?A) = block_offset + fst ?r"
      using Suc.prems(3) tile(1) by simp
    show "length ?B \<le> length (drop (length ?A) ys)"
      using room by simp
  qed
  then show ?case
    unfolding split by (simp add: case_prod_beta add.commute)
qed


lemma launch_scatter_kernel_data:
  assumes "\<forall>b<k. block_offsets ! b = length (filter filt [0..<b * (per_thread * block_size)])"
    and "length (filter filt [0..<k * (per_thread * block_size)]) \<le> length (output_data mem)"
  shows "output_data (launch_scatter_kernel k block_size per_thread has_validity uninit
                        input_data input_valid block_offsets filt mem)
           = map ((!) input_data) (filter filt [0..<k * (per_thread * block_size)])
               @ drop (length (filter filt [0..<k * (per_thread * block_size)])) (output_data mem)"
  using assms
proof (induction k)
  case 0
  then show ?case by (simp add: launch_scatter_kernel_def)
next
  case (Suc k)
  let ?d = "per_thread * block_size"
  let ?S = "filter filt [0..<k * ?d]"
  let ?T = "filter filt [k * ?d..<k * ?d + per_thread * block_size]"
  let ?mem = "launch_scatter_kernel k block_size per_thread has_validity uninit
                input_data input_valid block_offsets filt mem"
  have split: "[0..<Suc k * ?d] = [0..<k * ?d] @ [k * ?d..<k * ?d + per_thread * block_size]"
    using upt_add_eq_append [of 0 "k * ?d" ?d] by (simp add: add.commute)
  from Suc.prems(2) have room: "length ?S + length ?T \<le> length (output_data mem)"
    unfolding split by simp
  have IH: "output_data ?mem
              = map ((!) input_data) ?S @ drop (length ?S) (output_data mem)"
    using Suc.prems(1) room by (intro Suc.IH) simp_all
  have off: "block_offsets ! k = length ?S"
    using Suc.prems(1) by simp
  have step: "launch_scatter_kernel (Suc k) block_size per_thread has_validity uninit
                input_data input_valid block_offsets filt mem
              = scatter_kernel_loop block_size has_validity input_data input_valid filt per_thread
                  (k * ?d) (block_offsets ! k) (map uninit [0..<block_size]) ?mem"
    by (simp add: launch_scatter_kernel_def scatter_kernel_def mult.commute)
  have "output_data (scatter_kernel_loop block_size has_validity input_data input_valid filt
                       per_thread (k * ?d) (block_offsets ! k) (map uninit [0..<block_size]) ?mem)
          = map ((!) input_data) ?S @ map ((!) input_data) ?T
              @ drop (length ?T) (drop (length ?S) (output_data mem))"
  proof (rule scatter_kernel_loop_data)
    show "length (map uninit [0..<block_size]) = block_size" by simp
    show "output_data ?mem = map ((!) input_data) ?S @ drop (length ?S) (output_data mem)"
      by (rule IH)
    show "length (map ((!) input_data) ?S) = block_offsets ! k"
      by (simp add: off)
    show "length ?T \<le> length (drop (length ?S) (output_data mem))"
      using room by simp
  qed
  then show ?case
    unfolding step split by (simp add: add.commute)
qed

lemma block_offsets_count:
  assumes "b < num_blocks"
  shows "scan_block_counts num_blocks
           (launch_compute_block_counts num_blocks block_size per_thread filt) ! b
         = length (filter filt [0..<b * (per_thread * block_size)])"
proof -
  let ?bc = "launch_compute_block_counts num_blocks block_size per_thread filt"
  have "scan_block_counts num_blocks ?bc ! b = sum_list (take b ?bc)"
    using assms by (intro nth_scan_block_counts) (simp_all add: launch_compute_block_counts_def)
  also have "take b ?bc = launch_compute_block_counts b block_size per_thread filt"
    using assms by (intro take_block_counts) simp
  finally show ?thesis by (simp add: sum_list_block_counts)
qed

lemma data_scattered_column:
  assumes "0 < size_gdf c" and "data c = Some d" and "\<forall>i\<ge>size_gdf c. \<not> filt i"
  defines "num_blocks \<equiv> grid_num_blocks (size_gdf c) 256 32"
  shows "data (scattered_column uninit (length (filter filt [0..<size_gdf c]))
                 (scan_block_counts num_blocks
                    (launch_compute_block_counts num_blocks 256 32 filt)) filt c)
           = Some (map ((!) d) (filter filt [0..<size_gdf c]))"
proof -
  let ?n = "size_gdf c"
  let ?count = "length (filter filt [0..<?n])"
  let ?bo = "scan_block_counts num_blocks (launch_compute_block_counts num_blocks 256 32 filt)"
  have all: "filter filt [0..<num_blocks * (32 * 256)] = filter filt [0..<?n]"
    unfolding num_blocks_def
    by (rule filter_beyond_rows [OF assms(3)], rule grid_covers) simp
  then have all': "filter filt [0..<num_blocks * 8192] = filter filt [0..<?n]"
    by simp
  have gen: "output_data (launch_scatter_kernel num_blocks 256 32 hv uninit d iv ?bo filt
                 \<lparr>output_data = map uninit [0..<?count], output_valid = ov,
                  output_null_count = nc\<rparr>)
          = map ((!) d) (filter filt [0..<?n])" for hv iv ov nc
  proof -
    let ?m = "\<lparr>output_data = map uninit [0..<?count], output_valid = ov,
               output_null_count = nc\<rparr>"
    have "output_data (launch_scatter_kernel num_blocks 256 32 hv uninit d iv ?bo filt ?m)
          = map ((!) d) (filter filt [0..<num_blocks * (32 * 256)])
              @ drop (length (filter filt [0..<num_blocks * (32 * 256)])) (output_data ?m)"
      by (rule launch_scatter_kernel_data) (simp_all add: block_offsets_count all')
    then show ?thesis by (simp add: all')
  qed
  show ?thesis
    by (simp add: scattered_column_def scatter_functor_def Let_def assms(2)
          allocate_like_column_def num_blocks_def [symmetric] gen)
qed


lemma num_columns_empty_like: "num_columns (empty_like t) = num_columns t"
  by (simp add: num_columns_def empty_like_def)

lemma filter_full_length:
  assumes "length (filter P xs) = length xs"
  shows "filter P xs = xs"
proof -
  have "\<forall>x\<in>set xs. P x"
  proof
    fix x assume "x \<in> set xs"
    show "P x"
    proof (rule ccontr)
      assume "\<not> P x"
      with \<open>x \<in> set xs\<close> have "length (filter P xs) < length xs"
        by (rule length_filter_less)
      with assms show False by simp
    qed
  qed
  then show ?thesis by simp
qed

lemma column_rows_empty_like:
  "col < length t \<Longrightarrow> column_rows (empty_like t ! col) = []"
  by (simp add: empty_like_def empty_like_column_def column_rows_def)

lemma size_gdf_empty_like:
  "col < length t \<Longrightarrow> size_gdf (empty_like t ! col) = 0"
  by (simp add: empty_like_def empty_like_column_def)

lemma map_nth_take:
  assumes "\<forall>i\<in>set is. i < n"
  shows "map ((!) (take n d)) is = map ((!) d) is"
  using assms by (induction "is") simp_all

lemma size_gdf_scattered_column:
  "size_gdf (scattered_column uninit count block_offsets filt c) = count"
  by (simp add: scattered_column_def size_gdf_scatter_functor allocate_like_column_def)

text \<open>
  C2. Let the filter be false from the row count on, let all columns have the table's row
  count and a data buffer that holds at least that many cells, and let the entry checks
  pass. Write \<open>sel\<close> for \<open>filter filt [0..<n]\<close>, the passing indices in increasing order.
  Then \<open>copy_if\<close> returns a table with the input's number of columns and \<open>length sel\<close>
  rows, and in every column the rows of the output are exactly the input's rows at the
  indices \<open>sel\<close>, in that order: the same selection for all columns. When the scatter
  runs (some rows pass, not all), the output data buffer is that list itself. In
  particular row \<open>k\<close> of an output column is the input column's row at the \<open>k\<close>-th passing
  index.
\<close>

theorem copy_if_row_fidelity:
  assumes contract: "\<forall>i\<ge>num_rows input. \<not> filt i"
    and same: "\<forall>c\<in>set input. size_gdf c = num_rows input"
    and room: "\<forall>c\<in>set input. \<forall>d. data c = Some d \<longrightarrow> size_gdf c \<le> length d"
    and checks: "0 = num_rows input \<or> 0 = num_columns input
                 \<or> list_all (\<lambda>c. data c \<noteq> None) input"
  shows "\<exists>output. snd (copy_if uninit input filt) = Inr output
           \<and> num_columns output = num_columns input
           \<and> num_rows output = length (filter filt [0..<num_rows input])
           \<and> (\<forall>col<num_columns input.
                 size_gdf (output ! col) = length (filter filt [0..<num_rows input])
               \<and> column_rows (output ! col)
                   = map ((!) (column_rows (input ! col))) (filter filt [0..<num_rows input]))
           \<and> (0 < length (filter filt [0..<num_rows input])
                \<and> length (filter filt [0..<num_rows input]) \<noteq> num_rows input \<longrightarrow>
                (\<forall>col<num_columns input.
                   \<exists>d_in. data (input ! col) = Some d_in
                     \<and> data (output ! col)
                         = Some (map ((!) d_in) (filter filt [0..<num_rows input]))))
           \<and> (\<forall>col<num_columns input. \<forall>k<num_rows output.
                 \<exists>d_out d_in. data (output ! col) = Some d_out
                   \<and> data (input ! col) = Some d_in
                   \<and> d_out ! k = d_in ! (filter filt [0..<num_rows input] ! k))"
proof (cases "0 < num_rows input")
  case False
  then have res: "snd (copy_if uninit input filt) = Inr (empty_like input)"
    by (simp add: copy_if_def)
  from False have sel: "filter filt [0..<num_rows input] = []" by simp
  have "num_columns (empty_like input) = num_columns input"
    by (rule num_columns_empty_like)
  moreover have "num_rows (empty_like input) = length (filter filt [0..<num_rows input])"
    by (simp add: num_rows_empty_like sel)
  moreover have "\<forall>col<num_columns input.
        size_gdf (empty_like input ! col) = length (filter filt [0..<num_rows input])
      \<and> column_rows (empty_like input ! col)
          = map ((!) (column_rows (input ! col))) (filter filt [0..<num_rows input])"
    by (simp add: sel num_columns_def column_rows_empty_like size_gdf_empty_like)
  ultimately show ?thesis
    unfolding res by (intro exI [of _ "empty_like input"]) (simp add: sel num_rows_empty_like)
next
  case True
  then have cols: "0 < num_columns input" by (rule num_rows_pos_columns)
  with True checks have bufs: "list_all (\<lambda>c. data c \<noteq> None) input" by simp
  let ?n = "num_rows input"
  let ?sel = "filter filt [0..<?n]"
  let ?nb = "grid_num_blocks ?n 256 32"
  let ?bo = "scan_block_counts ?nb (launch_compute_block_counts ?nb 256 32 filt)"
  let ?scat = "map (scattered_column uninit (length ?sel) ?bo filt) input"
  have ne: "input \<noteq> []" using cols by (auto simp: num_columns_def)
  have res: "snd (copy_if uninit input filt)
               = Inr (if length ?sel = ?n then input
                      else if 0 < length ?sel then ?scat else empty_like input)"
    using copy_if_resolved [OF True bufs contract] by simp
  have buf: "\<exists>d. data (input ! col) = Some d" if "col < num_columns input" for col
    using bufs that by (auto simp: list_all_length num_columns_def)
  have below: "\<forall>i\<in>set ?sel. i < ?n" by simp
  consider (all) "length ?sel = ?n" | (some) "length ?sel \<noteq> ?n" "0 < length ?sel"
    | (none) "length ?sel = 0" "length ?sel \<noteq> ?n"
    by fastforce
  then show ?thesis
  proof cases
    case all
    then have full: "?sel = [0..<?n]" by (intro filter_full_length) simp
    then have nth: "?sel ! k = k" if "k < ?n" for k using that by simp
    have old: "\<exists>d_out d_in. data (input ! col) = Some d_out \<and> data (input ! col) = Some d_in
             \<and> d_out ! k = d_in ! (?sel ! k)"
      if "col < num_columns input" and "k < ?n" for col k
      using buf [OF that(1)] nth [OF that(2)] by auto
    have rows: "size_gdf (input ! col) = length ?sel
             \<and> column_rows (input ! col) = map ((!) (column_rows (input ! col))) ?sel"
      if "col < num_columns input" for col
    proof -
      from that have mem: "input ! col \<in> set input" by (simp add: num_columns_def)
      with same have sz: "size_gdf (input ! col) = ?n" by simp
      from buf [OF that] obtain d where d: "data (input ! col) = Some d" by blast
      with room mem sz have "?n \<le> length d" by auto
      then have len: "length (take ?n d) = ?n" by simp
      have "map ((!) (take ?n d)) [0..<?n] = take ?n d"
        using map_nth [of "take ?n d"] by (simp only: len)
      then have "column_rows (input ! col) = map ((!) (column_rows (input ! col))) ?sel"
        by (simp add: column_rows_def d sz full)
      with sz all show ?thesis by simp
    qed
    have "snd (copy_if uninit input filt) = Inr input"
      using all res by simp
    moreover have "num_rows input = length ?sel" using all by simp
    ultimately show ?thesis
      using rows old all by (intro exI [of _ input]) simp
  next
    case none
    then have sel: "?sel = []" by simp
    have "snd (copy_if uninit input filt) = Inr (empty_like input)"
      using none res by simp
    moreover have "num_columns (empty_like input) = num_columns input"
      by (rule num_columns_empty_like)
    moreover have "\<forall>col<num_columns input.
          size_gdf (empty_like input ! col) = length ?sel
        \<and> column_rows (empty_like input ! col) = map ((!) (column_rows (input ! col))) ?sel"
      by (simp add: sel num_columns_def column_rows_empty_like size_gdf_empty_like)
    ultimately show ?thesis
      by (intro exI [of _ "empty_like input"]) (simp add: sel num_rows_empty_like)
  next
    case some
    have rows: "num_rows ?scat = length ?sel"
      using ne by (rule num_rows_scattered)
    have col: "\<exists>d_in. data (input ! col) = Some d_in
                 \<and> data (?scat ! col) = Some (map ((!) d_in) ?sel)
                 \<and> size_gdf (?scat ! col) = length ?sel
                 \<and> column_rows (?scat ! col) = map ((!) (column_rows (input ! col))) ?sel"
      if "col < num_columns input" for col
    proof -
      from that have mem: "input ! col \<in> set input" by (simp add: num_columns_def)
      with same have sz: "size_gdf (input ! col) = ?n" by simp
      from buf [OF that] obtain d where d: "data (input ! col) = Some d" by blast
      have dat: "data (scattered_column uninit (length ?sel) ?bo filt (input ! col))
              = Some (map ((!) d) ?sel)"
        using data_scattered_column [of "input ! col" d filt uninit] True contract d
        by (simp add: sz)
      have "column_rows (scattered_column uninit (length ?sel) ?bo filt (input ! col))
              = map ((!) d) ?sel"
        by (simp add: column_rows_def dat size_gdf_scattered_column)
      also have "\<dots> = map ((!) (take ?n d)) ?sel"
        using map_nth_take [OF below, of d] by simp
      finally have "column_rows (scattered_column uninit (length ?sel) ?bo filt (input ! col))
              = map ((!) (column_rows (input ! col))) ?sel"
        by (simp add: column_rows_def d sz)
      with that d dat show ?thesis
        by (simp add: num_columns_def size_gdf_scattered_column)
    qed
    have c4: "\<forall>col<num_columns input.
                 size_gdf (?scat ! col) = length ?sel
               \<and> column_rows (?scat ! col) = map ((!) (column_rows (input ! col))) ?sel"
      using col by blast
    have c5: "\<forall>col<num_columns input.
                   \<exists>d_in. data (input ! col) = Some d_in
                     \<and> data (?scat ! col) = Some (map ((!) d_in) ?sel)"
      using col by blast
    have c6: "\<forall>col<num_columns input. \<forall>k<num_rows ?scat.
                  \<exists>d_out d_in. data (?scat ! col) = Some d_out \<and> data (input ! col) = Some d_in
                    \<and> d_out ! k = d_in ! (?sel ! k)"
    proof (intro allI impI)
      fix col k assume "col < num_columns input" and "k < num_rows ?scat"
      from col [OF this(1)] obtain d_in where "data (input ! col) = Some d_in"
        and "data (?scat ! col) = Some (map ((!) d_in) ?sel)" by blast
      moreover from \<open>k < num_rows ?scat\<close> have "map ((!) d_in) ?sel ! k = d_in ! (?sel ! k)"
        unfolding rows by (rule nth_map)
      ultimately show "\<exists>d_out d_in. data (?scat ! col) = Some d_out
          \<and> data (input ! col) = Some d_in \<and> d_out ! k = d_in ! (?sel ! k)"
        by blast
    qed
    have "snd (copy_if uninit input filt) = Inr ?scat"
      using some res by simp
    moreover have "num_columns ?scat = num_columns input"
      by (simp add: num_columns_def)
    ultimately show ?thesis using rows c4 c5 c6 by blast
  qed
qed

theorem copy_if_row_fidelity_witness:
  "\<exists>output. snd (copy_if (\<lambda>_. 0 :: int)
       [\<lparr>data = Some [10, 20, 30], valid = None, size_gdf = 3, dtype = GDF_INT32, null_count = 0\<rparr>,
        \<lparr>data = Some [7, 8, 9], valid = Some [7], size_gdf = 3, dtype = GDF_INT64, null_count = 0\<rparr>]
       (\<lambda>i. i = 0 \<or> i = 2)) = Inr output
     \<and> num_columns output = 2 \<and> num_rows output = 2
     \<and> data (output ! 0) = Some [10, 30] \<and> data (output ! 1) = Some [7, 9]
     \<and> column_rows (output ! 0) = [10, 30] \<and> column_rows (output ! 1) = [7, 9]"
proof -
  let ?t = "[\<lparr>data = Some [10, 20, 30 :: int], valid = None, size_gdf = 3, dtype = GDF_INT32,
               null_count = 0\<rparr>,
             \<lparr>data = Some [7, 8, 9], valid = Some [7], size_gdf = 3, dtype = GDF_INT64,
               null_count = 0\<rparr>]"
  let ?f = "\<lambda>i :: nat. i = 0 \<or> i = 2"
  have n: "num_rows ?t = 3" "num_columns ?t = 2"
    by (simp_all add: num_rows_def num_columns_def)
  have sel: "filter ?f [0..<3] = [0, 2]" by code_simp
  have p1: "\<forall>i\<ge>num_rows ?t. \<not> ?f i" by (simp add: n)
  have p2: "\<forall>c\<in>set ?t. size_gdf c = num_rows ?t" by (simp add: n)
  have p3: "\<forall>c\<in>set ?t. \<forall>d. data c = Some d \<longrightarrow> size_gdf c \<le> length d" by auto
  have p4: "0 = num_rows ?t \<or> 0 = num_columns ?t \<or> list_all (\<lambda>c. data c \<noteq> None) ?t"
    by simp
  from copy_if_row_fidelity [OF p1 p2 p3 p4, of "\<lambda>_. 0", unfolded n sel]
  obtain tab where out: "snd (copy_if (\<lambda>_. 0) ?t ?f) = Inr tab" "num_columns tab = 2"
      "num_rows tab = length [0, 2 :: nat]"
    and rows: "\<forall>col<2. size_gdf (tab ! col) = length [0, 2 :: nat]
                 \<and> column_rows (tab ! col) = map ((!) (column_rows (?t ! col))) [0, 2]"
    and dat: "0 < length [0, 2 :: nat] \<and> length [0, 2 :: nat] \<noteq> 3 \<longrightarrow>
                (\<forall>col<2. \<exists>d_in. data (?t ! col) = Some d_in
                     \<and> data (tab ! col) = Some (map ((!) d_in) [0, 2]))"
    by blast
  have "column_rows (tab ! 0) = [10, 30]" "column_rows (tab ! 1) = [7, 9]"
    using rows [rule_format, of 0] rows [rule_format, of 1]
    by (simp_all add: column_rows_def)
  moreover have "data (tab ! 0) = Some [10, 30]" "data (tab ! 1) = Some [7, 9]"
    using dat [rule_format, of 0] dat [rule_format, of 1] by auto
  moreover have "num_rows tab = 2" using out(3) by simp
  ultimately show ?thesis using out by blast
qed

subsection \<open>The scattered validity bits\<close>

lemma write_valids_warp_untouched:
  assumes "block_sum = 0 \<or> (block_offset div warp_size + block_sum div warp_size < j
             \<and> block_sum div warp_size \<noteq> block_size div warp_size)"
  shows "fst (write_valids_warp block_size block_offset block_sum temp_valids wid s) ! j = fst s ! j"
proof (cases "block_sum > 0 \<and> wid \<le> block_sum div warp_size")
  case False
  then have c: "(block_sum > 0 \<and> wid \<le> block_sum div warp_size) = False" by simp
  show ?thesis
    unfolding write_valids_warp_def Let_def c if_False by (rule refl)
next
  case True
  then have c: "(block_sum > 0 \<and> wid \<le> block_sum div warp_size) = True" by simp
  from True assms have far: "block_offset div warp_size + wid \<noteq> j"
    and part: "(wid = 0 \<and> block_sum div warp_size = block_size div warp_size) = False"
    by auto
  show ?thesis
    unfolding write_valids_warp_def Let_def c part if_True if_False
    using far by (simp add: atomicOr_def)
qed

lemma fold_write_valids_warp_untouched:
  assumes "block_sum = 0 \<or> (block_offset div warp_size + block_sum div warp_size < j
             \<and> block_sum div warp_size \<noteq> block_size div warp_size)"
  shows "fst (fold (write_valids_warp block_size block_offset block_sum temp_valids) wids s) ! j
           = fst s ! j"
proof (induction wids arbitrary: s)
  case Nil
  then show ?case by simp
next
  case (Cons wid wids)
  show ?case
    by (simp add: Cons.IH write_valids_warp_untouched [OF assms])
qed

lemma write_valids_untouched:
  assumes "block_sum = 0 \<or> (block_offset div warp_size + block_sum div warp_size < j
             \<and> block_sum div warp_size \<noteq> block_size div warp_size)"
  shows "fst (write_valids block_size block_offset block_sum temp_valids out_valid) ! j
           = out_valid ! j"
  unfolding write_valids_def
  by (simp add: fold_write_valids_warp_untouched [OF assms])

lemma fst_scatter_tile:
  "fst (scatter_tile block_size has_validity input_data input_valid filt tid block_offset
          temp_data mem)
     = length (filter filt [tid..<tid + block_size])"
  using syncthreads_count_range [of block_size filt tid]
  by (simp add: scatter_tile_def Let_def block_scan_mask_def syncthreads_count_def)

lemma scatter_tile_valid_untouched:
  assumes "length (filter filt [tid..<tid + block_size]) = 0
           \<or> (block_offset div warp_size + length (filter filt [tid..<tid + block_size]) div warp_size < j
               \<and> length (filter filt [tid..<tid + block_size]) div warp_size
                   \<noteq> block_size div warp_size)"
  shows "output_valid (snd (snd (scatter_tile block_size has_validity input_data input_valid filt
                                   tid block_offset temp_data mem))) ! j
           = output_valid mem ! j"
proof -
  have bs: "snd (block_scan_mask block_size (\<lambda>y. filt (tid + y)) 0)
              = length (filter filt [tid..<tid + block_size])"
    using syncthreads_count_range [of block_size filt tid]
    by (simp add: block_scan_mask_def syncthreads_count_def)
  show ?thesis
    by (simp add: scatter_tile_def Let_def bs write_valids_untouched [OF assms])
qed

lemma scatter_kernel_loop_valid_untouched:
  assumes "\<forall>t<i.
     (let block_sum = length (filter filt [tid + t * block_size..<tid + t * block_size + block_size]);
          offset = block_offset + length (filter filt [tid..<tid + t * block_size])
      in block_sum = 0 \<or> (offset div warp_size + block_sum div warp_size < j
                             \<and> block_sum div warp_size \<noteq> block_size div warp_size))"
  shows "output_valid (scatter_kernel_loop block_size has_validity input_data input_valid filt i
                         tid block_offset temp_data mem) ! j
           = output_valid mem ! j"
  using assms
proof (induction i arbitrary: tid block_offset temp_data mem)
  case 0
  then show ?case by simp
next
  case (Suc i)
  let ?bs = "length (filter filt [tid..<tid + block_size])"
  let ?r = "scatter_tile block_size has_validity input_data input_valid filt tid
              block_offset temp_data mem"
  from Suc.prems [rule_format, of 0]
  have first: "?bs = 0 \<or> (block_offset div warp_size + ?bs div warp_size < j
                 \<and> ?bs div warp_size \<noteq> block_size div warp_size)"
    by (simp add: Let_def)
  have rest: "\<forall>t<i.
     (let block_sum = length (filter filt
             [tid + block_size + t * block_size..<tid + block_size + t * block_size + block_size]);
          offset = block_offset + ?bs
                     + length (filter filt [tid + block_size..<tid + block_size + t * block_size])
      in block_sum = 0 \<or> (offset div warp_size + block_sum div warp_size < j
                             \<and> block_sum div warp_size \<noteq> block_size div warp_size))"
  proof (intro allI impI)
    fix t assume "t < i"
    then have "Suc t < Suc i" by simp
    have e: "tid + Suc t * block_size = tid + block_size + t * block_size" by simp
    have split: "[tid..<tid + block_size + t * block_size]
            = [tid..<tid + block_size] @ [tid + block_size..<tid + block_size + t * block_size]"
      by (rule upt_add_eq_append) simp
    from Suc.prems [rule_format, OF \<open>Suc t < Suc i\<close>, unfolded e split]
    show "let block_sum = length (filter filt
             [tid + block_size + t * block_size..<tid + block_size + t * block_size + block_size]);
          offset = block_offset + ?bs
                     + length (filter filt [tid + block_size..<tid + block_size + t * block_size])
      in block_sum = 0 \<or> (offset div warp_size + block_sum div warp_size < j
                             \<and> block_sum div warp_size \<noteq> block_size div warp_size)"
      by (simp only: Let_def filter_append length_append add.assoc)
  qed
  have "output_valid (scatter_kernel_loop block_size has_validity input_data input_valid filt i
          (tid + block_size) (block_offset + ?bs) (fst (snd ?r)) (snd (snd ?r))) ! j
        = output_valid (snd (snd ?r)) ! j"
    by (rule Suc.IH) (rule rest)
  also have "\<dots> = output_valid mem ! j"
    by (rule scatter_tile_valid_untouched [OF first])
  finally show ?case
    using fst_scatter_tile [of block_size has_validity input_data input_valid filt tid
        block_offset temp_data mem]
    by (simp add: case_prod_beta)
qed


lemma valid_scattered_column:
  assumes "valid c = Some iv" and "data c = Some d"
  shows "valid (scattered_column uninit count block_offsets filt c)
           = Some (output_valid
               (launch_scatter_kernel (grid_num_blocks (size_gdf c) 256 32) 256 32 True uninit d iv
                  block_offsets filt
                  \<lparr>output_data = map uninit [0..<count],
                   output_valid = replicate ((count + 31) div 32) 0,
                   output_null_count = 0\<rparr>))"
  using assms
  by (simp add: scattered_column_def scatter_functor_def Let_def is_nullable_def
        allocate_like_column_def)

text \<open>
  C3. The validity path of \<open>scatter_kernel\<close> does not do what the claim says. A pass whose
  rows land at output positions \<open>block_offset .. block_offset + block_sum - 1\<close> stages its
  flags at \<open>block_offset % 32 + local_index\<close>, but only the warps up to
  \<open>last_warp = block_sum / 32\<close> pack and write them, and the extra warp runs only for a full
  block. When \<open>block_offset % 32 + block_sum % 32 > 32\<close> the flags of one more word are
  staged and never written.

  The input: one nullable column of 258 rows, all valid; the filter passes rows 0 to 30 and
  rows 256 and 257. The first pass writes 31 rows; the second starts at offset 31 with two
  rows, so row 257 is staged at flag 32 with \<open>last_warp = 0\<close>. Output row 32 is input row
  257, which is valid, and its output validity bit stays 0.
\<close>

theorem scatter_kernel_loses_validity_bit:
  "\<exists>out v.
     snd (copy_if (\<lambda>_. 0 :: int)
            [\<lparr>data = Some (replicate 258 7), valid = Some (replicate 9 (- 1)), size_gdf = 258,
              dtype = GDF_INT32, null_count = 0\<rparr>]
            (\<lambda>i. i < 31 \<or> i = 256 \<or> i = 257)) = Inr [out]
     \<and> size_gdf out = 33 \<and> valid out = Some v
     \<and> filter (\<lambda>i. i < 31 \<or> i = 256 \<or> i = 257) [0..<258] ! 32 = 257
     \<and> is_valid (replicate 9 (- 1)) 257
     \<and> \<not> is_valid v 32"
proof -
  let ?f = "\<lambda>i :: nat. i < 31 \<or> i = 256 \<or> i = 257"
  let ?iv = "replicate 9 (- 1) :: bit_mask_t list"
  let ?d = "replicate 258 (7 :: int)"
  let ?c = "\<lparr>data = Some ?d, valid = Some ?iv, size_gdf = 258, dtype = GDF_INT32,
             null_count = 0\<rparr>"
  let ?u = "\<lambda>_ :: nat. 0 :: int"
  have n: "num_rows [?c] = 258" by (simp add: num_rows_def)
  have nb: "grid_num_blocks 258 256 32 = 1" by (simp add: grid_num_blocks_def)
  let ?bo = "scan_block_counts 1 (launch_compute_block_counts 1 256 32 ?f)"
  have s1: "filter ?f [0..<31] = [0..<31]" by simp
  have s2: "filter ?f [31..<256] = []" by simp
  have s3: "filter ?f [256..<258] = [256, 257]" by (simp add: upt_rec_numeral)
  have s4: "filter ?f [258..<512] = []" by simp
  have u1: "[0..<256] = [0..<31] @ [31..<256]"
    using upt_add_eq_append [of 0 31 225] by simp
  have u2: "[256..<512] = [256..<258] @ [258..<512]"
    using upt_add_eq_append [of 256 258 254] by simp
  have u3: "[0..<258] = [0..<256] @ [256..<258]"
    using upt_add_eq_append [of 0 256 2] by simp
  have tile0: "length (filter ?f [0..<256]) = 31"
    unfolding u1 by (simp only: filter_append s1 s2) simp
  have tile1: "length (filter ?f [256..<512]) = 2"
    unfolding u2 by (simp only: filter_append s3 s4) simp
  have sel: "filter ?f [0..<258] = [0..<31] @ [256, 257]"
    unfolding u3 u1 by (simp only: filter_append s1 s2 s3) simp
  have count: "length (filter ?f [0..<258]) = 33" unfolding sel by simp
  have kth: "filter ?f [0..<258] ! 32 = 257" unfolding sel by (simp add: nth_append)
  have later: "filter ?f [t * 256..<t * 256 + 256] = []" if "2 \<le> t" for t
    using that by (auto simp: filter_empty_conv)
  have rows: "0 < num_rows [?c]" by (simp add: n)
  have bufs: "list_all (\<lambda>c. data c \<noteq> None) [?c]" by simp
  have contract: "\<forall>i\<ge>num_rows [?c]. \<not> ?f i" by (simp add: n)
  have res: "snd (copy_if ?u [?c] ?f) = Inr [scattered_column ?u 33 ?bo ?f ?c]"
    using copy_if_resolved [OF rows bufs contract, of ?u] by (simp add: n nb count)
  let ?mem0 = "\<lparr>output_data = map ?u [0..<33], output_valid = replicate ((33 + 31) div 32) 0,
                output_null_count = 0\<rparr>"
  let ?v = "output_valid (launch_scatter_kernel 1 256 32 True ?u ?d ?iv ?bo ?f ?mem0)"
  have v: "valid (scattered_column ?u 33 ?bo ?f ?c) = Some ?v"
    using valid_scattered_column [of ?c ?iv ?d ?u 33 ?bo ?f] by (simp add: nb)
  have bo0: "scan_block_counts (Suc 0) bc ! 0 = 0" for bc
    by (simp add: scan_block_counts_def)
  have launch: "launch_scatter_kernel 1 256 32 True ?u ?d ?iv ?bo ?f ?mem0
                  = scatter_kernel_loop 256 True ?d ?iv ?f 32 0 0 (map ?u [0..<256]) ?mem0"
    by (simp add: launch_scatter_kernel_def scatter_kernel_def bo0)
  have cond: "\<forall>t<32.
     (let block_sum = length (filter ?f [0 + t * 256..<0 + t * 256 + 256]);
          offset = 0 + length (filter ?f [0..<0 + t * 256])
      in block_sum = 0 \<or> (offset div warp_size + block_sum div warp_size < 1
                             \<and> block_sum div warp_size \<noteq> 256 div warp_size))"
  proof (intro allI impI)
    fix t :: nat assume "t < 32"
    consider "t = 0" | "t = 1" | "2 \<le> t" by linarith
    then show "let block_sum = length (filter ?f [0 + t * 256..<0 + t * 256 + 256]);
          offset = 0 + length (filter ?f [0..<0 + t * 256])
      in block_sum = 0 \<or> (offset div warp_size + block_sum div warp_size < 1
                             \<and> block_sum div warp_size \<noteq> 256 div warp_size)"
    proof cases
      case 1
      then show ?thesis by (simp add: Let_def tile0 warp_size_def)
    next
      case 2
      then show ?thesis by (simp add: Let_def tile0 tile1 warp_size_def)
    next
      case 3
      then show ?thesis by (simp add: Let_def later)
    qed
  qed
  have "?v ! 1 = output_valid ?mem0 ! 1"
    unfolding launch by (rule scatter_kernel_loop_valid_untouched [OF cond])
  then have word: "?v ! 1 = 0" by simp
  have i32: "(32 :: nat) div 32 = 1" "(32 :: nat) mod 32 = 0" by simp_all
  have lost: "\<not> is_valid ?v 32"
    unfolding is_valid_def i32 word by simp
  have there: "is_valid ?iv 257"
    by (simp add: is_valid_def)
  have size: "size_gdf (scattered_column ?u 33 ?bo ?f ?c) = 33"
    by (simp add: scattered_column_def size_gdf_scatter_functor allocate_like_column_def)
  show ?thesis
    using res size v kth there lost by blast
qed

section \<open>Properties of \<open>clamp\<close>\<close>

text \<open>
  C8, as stated, fails on an empty input column: with agreeing types, a valid \<open>lo\<close> and
  a null \<open>lo_replace\<close> (and a valid \<open>hi\<close> with a null \<open>hi_replace\<close>), \<open>clamp\<close> returns a
  copy of the input. The early return for "no change" comes before the checks of the
  replacement scalars.
\<close>

theorem clamp_empty_input_null_replace:
  "clamp zero_bytes
     \<lparr>col_type = INT32, col_size = 0, col_data = [], col_null_mask = None, col_null_count = 0,
      col_offsets = [], col_chars = []\<rparr>
     \<lparr>scalar_type = INT32, scalar_is_valid = True, scalar_value = 2 :: int, scalar_string = []\<rparr>
     \<lparr>scalar_type = INT32, scalar_is_valid = False, scalar_value = 0, scalar_string = []\<rparr>
     \<lparr>scalar_type = INT32, scalar_is_valid = True, scalar_value = 10, scalar_string = []\<rparr>
     \<lparr>scalar_type = INT32, scalar_is_valid = False, scalar_value = 0, scalar_string = []\<rparr>
   = Inr \<lparr>col_type = INT32, col_size = 0, col_data = [], col_null_mask = None,
          col_null_count = 0, col_offsets = [], col_chars = []\<rparr>"
  by (simp add: clamp_def is_empty_def)

text \<open>
  C8, amended. \<open>clamp\<close> throws a \<open>logic_error\<close>, and returns no column, when the types of
  \<open>lo\<close>, \<open>hi\<close>, \<open>lo_replace\<close>, \<open>hi_replace\<close> and the input column do not all agree; and
  also when the input column is not empty and \<open>lo\<close> is valid while \<open>lo_replace\<close> is null, or
  \<open>hi\<close> is valid while \<open>hi_replace\<close> is null. The error is always that of one of the six
  checks at the entry of \<open>clamp\<close>, the first one in the source's order that fails, so it is
  raised before the type dispatch, where the device work starts (the dispatcher's own
  failure carries another message). On an empty input column with agreeing types \<open>clamp\<close>
  returns a copy of the input, whatever the validity of the replacement scalars.
\<close>

theorem clamp_precondition_errors:
  "(\<not> (scalar_type hi = scalar_type lo \<and> scalar_type lo_replace = scalar_type lo
         \<and> scalar_type hi_replace = scalar_type lo \<and> col_type input = scalar_type lo)
      \<or> (\<not> is_empty input
          \<and> ((scalar_is_valid lo \<and> \<not> scalar_is_valid lo_replace)
               \<or> (scalar_is_valid hi \<and> \<not> scalar_is_valid hi_replace)))
    \<longrightarrow> (\<exists>msg \<in> {''mismatching types of limit scalars'',
                      ''mismatching types of replace scalars'',
                      ''mismatching types of limit and replace scalars'',
                      ''mismatching types of scalar and input'',
                      ''lo_replace can'' @ [CHR 0x27] @ ''t be null'',
                      ''hi_replace can'' @ [CHR 0x27] @ ''t be null''}.
           clamp uninit input lo lo_replace hi hi_replace = Inl (logic_error msg)))
   \<and> (scalar_type lo \<noteq> scalar_type hi \<longrightarrow>
        clamp uninit input lo lo_replace hi hi_replace
          = Inl (logic_error ''mismatching types of limit scalars''))
   \<and> (scalar_type lo = scalar_type hi \<and> scalar_type lo_replace \<noteq> scalar_type hi_replace \<longrightarrow>
        clamp uninit input lo lo_replace hi hi_replace
          = Inl (logic_error ''mismatching types of replace scalars''))
   \<and> (scalar_type lo = scalar_type hi \<and> scalar_type lo_replace = scalar_type hi_replace
        \<and> scalar_type lo \<noteq> scalar_type lo_replace \<longrightarrow>
        clamp uninit input lo lo_replace hi hi_replace
          = Inl (logic_error ''mismatching types of limit and replace scalars''))
   \<and> (scalar_type lo = scalar_type hi \<and> scalar_type lo_replace = scalar_type hi_replace
        \<and> scalar_type lo = scalar_type lo_replace \<and> scalar_type lo \<noteq> col_type input \<longrightarrow>
        clamp uninit input lo lo_replace hi hi_replace
          = Inl (logic_error ''mismatching types of scalar and input''))
   \<and> (scalar_type lo = scalar_type hi \<and> scalar_type lo_replace = scalar_type hi_replace
        \<and> scalar_type lo = scalar_type lo_replace \<and> scalar_type lo = col_type input
        \<and> \<not> is_empty input \<and> scalar_is_valid lo \<and> \<not> scalar_is_valid lo_replace \<longrightarrow>
        clamp uninit input lo lo_replace hi hi_replace
          = Inl (logic_error (''lo_replace can'' @ [CHR 0x27] @ ''t be null'')))
   \<and> (scalar_type lo = scalar_type hi \<and> scalar_type lo_replace = scalar_type hi_replace
        \<and> scalar_type lo = scalar_type lo_replace \<and> scalar_type lo = col_type input
        \<and> \<not> is_empty input \<and> (scalar_is_valid lo \<longrightarrow> scalar_is_valid lo_replace)
        \<and> scalar_is_valid hi \<and> \<not> scalar_is_valid hi_replace \<longrightarrow>
        clamp uninit input lo lo_replace hi hi_replace
          = Inl (logic_error (''hi_replace can'' @ [CHR 0x27] @ ''t be null'')))
   \<and> (scalar_type lo = scalar_type hi \<and> scalar_type lo_replace = scalar_type hi_replace
        \<and> scalar_type lo = scalar_type lo_replace \<and> scalar_type lo = col_type input
        \<and> is_empty input \<longrightarrow>
        clamp uninit input lo lo_replace hi hi_replace = Inr input)"
proof -
  let ?r = "clamp uninit input lo lo_replace hi hi_replace"
  have e1: "?r = Inl (logic_error ''mismatching types of limit scalars'')"
    if "scalar_type lo \<noteq> scalar_type hi"
    using that by (simp add: clamp_def)
  have e2: "?r = Inl (logic_error ''mismatching types of replace scalars'')"
    if "scalar_type lo = scalar_type hi" "scalar_type lo_replace \<noteq> scalar_type hi_replace"
    using that by (simp add: clamp_def)
  have e3: "?r = Inl (logic_error ''mismatching types of limit and replace scalars'')"
    if "scalar_type lo = scalar_type hi" "scalar_type lo_replace = scalar_type hi_replace"
      "scalar_type lo \<noteq> scalar_type lo_replace"
    using that by (simp add: clamp_def)
  have e4: "?r = Inl (logic_error ''mismatching types of scalar and input'')"
    if "scalar_type lo = scalar_type hi" "scalar_type lo_replace = scalar_type hi_replace"
      "scalar_type lo = scalar_type lo_replace" "scalar_type lo \<noteq> col_type input"
    using that by (simp add: clamp_def)
  have e5: "?r = Inl (logic_error (''lo_replace can'' @ [CHR 0x27] @ ''t be null''))"
    if "scalar_type lo = scalar_type hi" "scalar_type lo_replace = scalar_type hi_replace"
      "scalar_type lo = scalar_type lo_replace" "scalar_type lo = col_type input"
      "\<not> is_empty input" "scalar_is_valid lo" "\<not> scalar_is_valid lo_replace"
    using that by (simp add: clamp_def)
  have e6: "?r = Inl (logic_error (''hi_replace can'' @ [CHR 0x27] @ ''t be null''))"
    if "scalar_type lo = scalar_type hi" "scalar_type lo_replace = scalar_type hi_replace"
      "scalar_type lo = scalar_type lo_replace" "scalar_type lo = col_type input"
      "\<not> is_empty input" "scalar_is_valid lo \<longrightarrow> scalar_is_valid lo_replace"
      "scalar_is_valid hi" "\<not> scalar_is_valid hi_replace"
    using that by (simp add: clamp_def)
  have e7: "?r = Inr input" if "scalar_type lo = scalar_type hi" "scalar_type lo_replace = scalar_type hi_replace"
      "scalar_type lo = scalar_type lo_replace" "scalar_type lo = col_type input"
      "is_empty input"
    using that by (simp add: clamp_def)
  let ?msgs = "{''mismatching types of limit scalars'',
                ''mismatching types of replace scalars'',
                ''mismatching types of limit and replace scalars'',
                ''mismatching types of scalar and input'',
                ''lo_replace can'' @ [CHR 0x27] @ ''t be null'',
                ''hi_replace can'' @ [CHR 0x27] @ ''t be null''}"
  have summary: "\<exists>msg \<in> ?msgs. ?r = Inl (logic_error msg)"
    if h: "\<not> (scalar_type hi = scalar_type lo \<and> scalar_type lo_replace = scalar_type lo
               \<and> scalar_type hi_replace = scalar_type lo \<and> col_type input = scalar_type lo)
           \<or> (\<not> is_empty input
               \<and> ((scalar_is_valid lo \<and> \<not> scalar_is_valid lo_replace)
                    \<or> (scalar_is_valid hi \<and> \<not> scalar_is_valid hi_replace)))"
  proof -
    from h consider
        (c1) "scalar_type lo \<noteq> scalar_type hi"
      | (c2) "scalar_type lo = scalar_type hi" "scalar_type lo_replace \<noteq> scalar_type hi_replace"
      | (c3) "scalar_type lo = scalar_type hi" "scalar_type lo_replace = scalar_type hi_replace"
             "scalar_type lo \<noteq> scalar_type lo_replace"
      | (c4) "scalar_type lo = scalar_type hi" "scalar_type lo_replace = scalar_type hi_replace"
             "scalar_type lo = scalar_type lo_replace" "scalar_type lo \<noteq> col_type input"
      | (c5) "scalar_type lo = scalar_type hi" "scalar_type lo_replace = scalar_type hi_replace"
      "scalar_type lo = scalar_type lo_replace" "scalar_type lo = col_type input"
      "\<not> is_empty input" "scalar_is_valid lo" "\<not> scalar_is_valid lo_replace"
      | (c6) "scalar_type lo = scalar_type hi" "scalar_type lo_replace = scalar_type hi_replace"
      "scalar_type lo = scalar_type lo_replace" "scalar_type lo = col_type input"
      "\<not> is_empty input" "scalar_is_valid lo \<longrightarrow> scalar_is_valid lo_replace"
             "scalar_is_valid hi" "\<not> scalar_is_valid hi_replace"
      by metis
    then show ?thesis
    proof cases
      case c1
      from e1 [OF this] show ?thesis by (simp only: bex_simps insert_iff simp_thms)
    next
      case c2
      from e2 [OF this] show ?thesis by (simp only: bex_simps insert_iff simp_thms)
    next
      case c3
      from e3 [OF this] show ?thesis by (simp only: bex_simps insert_iff simp_thms)
    next
      case c4
      from e4 [OF this] show ?thesis by (simp only: bex_simps insert_iff simp_thms)
    next
      case c5
      from e5 [OF this] show ?thesis by (simp only: bex_simps insert_iff simp_thms)
    next
      case c6
      from e6 [OF this] show ?thesis by (simp only: bex_simps insert_iff simp_thms)
    qed
  qed
  show ?thesis
  proof (intro conjI impI)
    assume "\<not> (scalar_type hi = scalar_type lo \<and> scalar_type lo_replace = scalar_type lo
               \<and> scalar_type hi_replace = scalar_type lo \<and> col_type input = scalar_type lo)
           \<or> (\<not> is_empty input
               \<and> ((scalar_is_valid lo \<and> \<not> scalar_is_valid lo_replace)
                    \<or> (scalar_is_valid hi \<and> \<not> scalar_is_valid hi_replace)))"
    then show "\<exists>msg \<in> ?msgs. ?r = Inl (logic_error msg)" by (rule summary)
  next
    assume "scalar_type lo \<noteq> scalar_type hi"
    then show "?r = Inl (logic_error ''mismatching types of limit scalars'')" by (rule e1)
  next
    assume "scalar_type lo = scalar_type hi \<and> scalar_type lo_replace \<noteq> scalar_type hi_replace"
    then show "?r = Inl (logic_error ''mismatching types of replace scalars'')"
      using e2 by blast
  next
    assume "scalar_type lo = scalar_type hi \<and> scalar_type lo_replace = scalar_type hi_replace
        \<and> scalar_type lo \<noteq> scalar_type lo_replace"
    then show "?r = Inl (logic_error ''mismatching types of limit and replace scalars'')"
      using e3 by blast
  next
    assume "scalar_type lo = scalar_type hi \<and> scalar_type lo_replace = scalar_type hi_replace
        \<and> scalar_type lo = scalar_type lo_replace \<and> scalar_type lo \<noteq> col_type input"
    then show "?r = Inl (logic_error ''mismatching types of scalar and input'')"
      using e4 by blast
  next
    assume "scalar_type lo = scalar_type hi \<and> scalar_type lo_replace = scalar_type hi_replace
        \<and> scalar_type lo = scalar_type lo_replace \<and> scalar_type lo = col_type input
        \<and> \<not> is_empty input \<and> scalar_is_valid lo \<and> \<not> scalar_is_valid lo_replace"
    then show "?r = Inl (logic_error (''lo_replace can'' @ [CHR 0x27] @ ''t be null''))"
      using e5 by blast
  next
    assume "scalar_type lo = scalar_type hi \<and> scalar_type lo_replace = scalar_type hi_replace
        \<and> scalar_type lo = scalar_type lo_replace \<and> scalar_type lo = col_type input
        \<and> \<not> is_empty input \<and> (scalar_is_valid lo \<longrightarrow> scalar_is_valid lo_replace)
        \<and> scalar_is_valid hi \<and> \<not> scalar_is_valid hi_replace"
    then show "?r = Inl (logic_error (''hi_replace can'' @ [CHR 0x27] @ ''t be null''))"
      using e6 by blast
  next
    assume "scalar_type lo = scalar_type hi \<and> scalar_type lo_replace = scalar_type hi_replace
        \<and> scalar_type lo = scalar_type lo_replace \<and> scalar_type lo = col_type input
        \<and> is_empty input"
    then show "?r = Inr input" using e7 by blast
  qed
qed

theorem clamp_precondition_errors_witness:
  "clamp zero_bytes
     \<lparr>col_type = INT32, col_size = 2, col_data = [1, 20], col_null_mask = None, col_null_count = 0,
      col_offsets = [], col_chars = []\<rparr>
     \<lparr>scalar_type = INT32, scalar_is_valid = True, scalar_value = 2 :: int, scalar_string = []\<rparr>
     \<lparr>scalar_type = INT32, scalar_is_valid = False, scalar_value = 0, scalar_string = []\<rparr>
     \<lparr>scalar_type = INT32, scalar_is_valid = True, scalar_value = 10, scalar_string = []\<rparr>
     \<lparr>scalar_type = INT32, scalar_is_valid = True, scalar_value = 10, scalar_string = []\<rparr>
    = Inl (logic_error (''lo_replace can'' @ [CHR 0x27] @ ''t be null''))
   \<and> clamp zero_bytes
     \<lparr>col_type = INT32, col_size = 2, col_data = [1, 20], col_null_mask = None, col_null_count = 0,
      col_offsets = [], col_chars = []\<rparr>
     \<lparr>scalar_type = INT32, scalar_is_valid = True, scalar_value = 2 :: int, scalar_string = []\<rparr>
     \<lparr>scalar_type = INT32, scalar_is_valid = True, scalar_value = 2, scalar_string = []\<rparr>
     \<lparr>scalar_type = INT64, scalar_is_valid = True, scalar_value = 10, scalar_string = []\<rparr>
     \<lparr>scalar_type = INT32, scalar_is_valid = True, scalar_value = 10, scalar_string = []\<rparr>
    = Inl (logic_error ''mismatching types of limit scalars'')
   \<and> clamp zero_bytes
     \<lparr>col_type = INT32, col_size = 0, col_data = [], col_null_mask = None, col_null_count = 0,
      col_offsets = [], col_chars = []\<rparr>
     \<lparr>scalar_type = INT32, scalar_is_valid = True, scalar_value = 2 :: int, scalar_string = []\<rparr>
     \<lparr>scalar_type = INT32, scalar_is_valid = True, scalar_value = 2, scalar_string = []\<rparr>
     \<lparr>scalar_type = INT32, scalar_is_valid = True, scalar_value = 10, scalar_string = []\<rparr>
     \<lparr>scalar_type = INT32, scalar_is_valid = False, scalar_value = 10, scalar_string = []\<rparr>
    = Inr \<lparr>col_type = INT32, col_size = 0, col_data = [], col_null_mask = None,
           col_null_count = 0, col_offsets = [], col_chars = []\<rparr>"
  using clamp_precondition_errors
      [of "\<lparr>scalar_type = INT32, scalar_is_valid = True, scalar_value = 10 :: int, scalar_string = []\<rparr>"
          "\<lparr>scalar_type = INT32, scalar_is_valid = True, scalar_value = 2, scalar_string = []\<rparr>"
          "\<lparr>scalar_type = INT32, scalar_is_valid = False, scalar_value = 0, scalar_string = []\<rparr>"
          "\<lparr>scalar_type = INT32, scalar_is_valid = True, scalar_value = 10, scalar_string = []\<rparr>"
          "\<lparr>col_type = INT32, col_size = 2, col_data = [1, 20], col_null_mask = None,
            col_null_count = 0, col_offsets = [], col_chars = []\<rparr>"
          zero_bytes]
    clamp_precondition_errors
      [of "\<lparr>scalar_type = INT64, scalar_is_valid = True, scalar_value = 10 :: int, scalar_string = []\<rparr>"
          "\<lparr>scalar_type = INT32, scalar_is_valid = True, scalar_value = 2, scalar_string = []\<rparr>"
          "\<lparr>scalar_type = INT32, scalar_is_valid = True, scalar_value = 2, scalar_string = []\<rparr>"
          "\<lparr>scalar_type = INT32, scalar_is_valid = True, scalar_value = 10, scalar_string = []\<rparr>"
          "\<lparr>col_type = INT32, col_size = 2, col_data = [1, 20], col_null_mask = None,
            col_null_count = 0, col_offsets = [], col_chars = []\<rparr>"
          zero_bytes]
    clamp_precondition_errors
      [of "\<lparr>scalar_type = INT32, scalar_is_valid = True, scalar_value = 10 :: int, scalar_string = []\<rparr>"
          "\<lparr>scalar_type = INT32, scalar_is_valid = True, scalar_value = 2, scalar_string = []\<rparr>"
          "\<lparr>scalar_type = INT32, scalar_is_valid = True, scalar_value = 2, scalar_string = []\<rparr>"
          "\<lparr>scalar_type = INT32, scalar_is_valid = False, scalar_value = 10, scalar_string = []\<rparr>"
          "\<lparr>col_type = INT32, col_size = 0, col_data = [], col_null_mask = None,
            col_null_count = 0, col_offsets = [], col_chars = []\<rparr>"
          zero_bytes]
  by (simp add: is_empty_def)


text \<open>
  C10. Whenever \<open>clamp\<close> returns a column, on the fixed-width and on the string path
  alike, the column has the input's row count, validity buffer and null count. The input
  is a well-formed column: without a validity buffer its null count is 0.
\<close>

theorem clamp_keeps_nulls:
  assumes "clamp uninit input lo lo_replace hi hi_replace = Inr out"
    and "col_null_mask input = None \<longrightarrow> col_null_count input = 0"
  shows "col_size out = col_size input \<and> col_null_mask out = col_null_mask input
       \<and> col_null_count out = col_null_count input"
proof -
  have fixed: "col_size (clamper input a b c d) = col_size input
       \<and> col_null_mask (clamper input a b c d) = col_null_mask input
       \<and> col_null_count (clamper input a b c d) = col_null_count input" for a b c d
    using assms(2) by (cases "col_null_mask input")
      (simp_all add: clamper_def Let_def nullable_def copy_bitmask_def)
  have str: "col_size (clamp_strings_with uninit input pick) = col_size input
       \<and> col_null_mask (clamp_strings_with uninit input pick) = col_null_mask input
       \<and> col_null_count (clamp_strings_with uninit input pick) = col_null_count input" for pick
    by (simp add: clamp_strings_with_def Let_def copy_bitmask_def)
  have strc: "col_size (clamp_string_column uninit input a b c d) = col_size input
       \<and> col_null_mask (clamp_string_column uninit input a b c d) = col_null_mask input
       \<and> col_null_count (clamp_string_column uninit input a b c d) = col_null_count input"
    for a b c d
    using str by (simp add: clamp_string_column_def Let_def)
  have "out = input \<or> dispatch_clamp uninit input lo lo_replace hi hi_replace = Inr out"
  proof (rule ccontr)
    assume n: "\<not> (out = input \<or> dispatch_clamp uninit input lo lo_replace hi hi_replace = Inr out)"
    then have "clamp uninit input lo lo_replace hi hi_replace \<noteq> Inr out"
      unfolding clamp_def by (simp only: split: if_split) auto
    with assms(1) show False by simp
  qed
  then consider "out = input"
    | "dispatch_clamp uninit input lo lo_replace hi hi_replace = Inr out"
    by blast
  then show ?thesis
  proof cases
    case 1
    then show ?thesis by simp
  next
    case 2
    then have "out = clamp_string_column uninit input (string_scalar_pair lo)
                       (string_scalar_pair lo_replace) (string_scalar_pair hi)
                       (string_scalar_pair hi_replace)
             \<or> out = clamper input (scalar_pair lo) (scalar_pair lo_replace) (scalar_pair hi)
                       (scalar_pair hi_replace)"
      by (auto simp: dispatch_clamp_def split: if_splits)
    then show ?thesis
      by (rule disjE) (simp_all only: fixed strc simp_thms)
  qed
qed



theorem clamp_keeps_nulls_witness:
  "(\<exists>out. clamp zero_bytes
       \<lparr>col_type = INT32, col_size = 3, col_data = [1, 5, 12],
        col_null_mask = Some [5], col_null_count = 1, col_offsets = [], col_chars = []\<rparr>
       \<lparr>scalar_type = INT32, scalar_is_valid = True, scalar_value = 2 :: int, scalar_string = []\<rparr>
       \<lparr>scalar_type = INT32, scalar_is_valid = True, scalar_value = 100, scalar_string = []\<rparr>
       \<lparr>scalar_type = INT32, scalar_is_valid = True, scalar_value = 10, scalar_string = []\<rparr>
       \<lparr>scalar_type = INT32, scalar_is_valid = True, scalar_value = 200, scalar_string = []\<rparr>
     = Inr out
     \<and> col_size out = 3 \<and> col_null_mask out = Some [5] \<and> col_null_count out = 1)
   \<and> (\<exists>out. clamp zero_bytes
       \<lparr>col_type = STRING, col_size = 2, col_data = [],
        col_null_mask = Some [1], col_null_count = 1, col_offsets = [0, 2, 3],
        col_chars = ''bbz''\<rparr>
       \<lparr>scalar_type = STRING, scalar_is_valid = True, scalar_value = 0 :: int, scalar_string = ''c''\<rparr>
       \<lparr>scalar_type = STRING, scalar_is_valid = True, scalar_value = 0, scalar_string = ''LOW''\<rparr>
       \<lparr>scalar_type = STRING, scalar_is_valid = False, scalar_value = 0, scalar_string = []\<rparr>
       \<lparr>scalar_type = STRING, scalar_is_valid = False, scalar_value = 0, scalar_string = []\<rparr>
     = Inr out
     \<and> col_size out = 2 \<and> col_null_mask out = Some [1] \<and> col_null_count out = 1)"
proof -
  let ?c = "\<lparr>col_type = INT32, col_size = 3, col_data = [1, 5, 12 :: int],
        col_null_mask = Some [5], col_null_count = 1, col_offsets = [], col_chars = []\<rparr>"
  let ?lo = "\<lparr>scalar_type = INT32, scalar_is_valid = True, scalar_value = 2 :: int, scalar_string = []\<rparr>"
  let ?lr = "\<lparr>scalar_type = INT32, scalar_is_valid = True, scalar_value = 100 :: int, scalar_string = []\<rparr>"
  let ?hi = "\<lparr>scalar_type = INT32, scalar_is_valid = True, scalar_value = 10 :: int, scalar_string = []\<rparr>"
  let ?hr = "\<lparr>scalar_type = INT32, scalar_is_valid = True, scalar_value = 200 :: int, scalar_string = []\<rparr>"
  let ?s = "\<lparr>col_type = STRING, col_size = 2, col_data = [] :: int list,
        col_null_mask = Some [1], col_null_count = 1, col_offsets = [0, 2, 3],
        col_chars = ''bbz''\<rparr>"
  let ?slo = "\<lparr>scalar_type = STRING, scalar_is_valid = True, scalar_value = 0 :: int, scalar_string = ''c''\<rparr>"
  let ?slr = "\<lparr>scalar_type = STRING, scalar_is_valid = True, scalar_value = 0 :: int, scalar_string = ''LOW''\<rparr>"
  let ?shi = "\<lparr>scalar_type = STRING, scalar_is_valid = False, scalar_value = 0 :: int, scalar_string = []\<rparr>"
  obtain o1 where r1: "clamp zero_bytes ?c ?lo ?lr ?hi ?hr = Inr o1"
    by (simp add: clamp_def dispatch_clamp_def is_empty_def is_fixed_width_def)
  obtain o2 where r2: "clamp zero_bytes ?s ?slo ?slr ?shi ?shi = Inr o2"
    by (simp add: clamp_def dispatch_clamp_def is_empty_def)
  from clamp_keeps_nulls [OF r1] clamp_keeps_nulls [OF r2] r1 r2
  show ?thesis by simp
qed

end
